theory Spec2Isabelle
  imports Complex_Main "HOL-Library.Sublist" "HOL-Library.Char_ord" "HOL-Library.List_Lexorder"
    "HOL-Library.Product_Lexorder" "HOL-Library.Multiset"
begin

section \<open>Strings\<close>

text \<open>
  A Python \<open>str\<close> is modelled as a \<open>string\<close> whose characters are the code points
  below 256. \<open>str.lower\<close> maps \<open>A\<close>..\<open>Z\<close> and the upper-case letters of the
  Latin-1 block (192..222 without the multiplication sign 215) to the letter 32 places
  further on and leaves every other character alone. The order on strings is the
  lexicographic order on code points, as Python compares \<open>str\<close> values.
\<close>

definition lower_char :: "char \<Rightarrow> char" where
  "lower_char c =
     (let n = (of_char c :: nat)
      in if (65 \<le> n \<and> n \<le> 90) \<or> (192 \<le> n \<and> n \<le> 222 \<and> n \<noteq> 215)
         then char_of (n + 32) else c)"

definition lower :: "string \<Rightarrow> string" where
  "lower s = map lower_char s"

text \<open>\<open>sub in s\<close> on Python strings: \<open>sub\<close> occurs in \<open>s\<close> as a contiguous block.\<close>

fun contains :: "string \<Rightarrow> string \<Rightarrow> bool" where
  "contains sub [] = (sub = [])"
| "contains sub (c # cs) = (prefix sub (c # cs) \<or> contains sub cs)"

section \<open>SKU classification\<close>

text \<open>\<open>categorize_sku\<close> of \<open>preprocessing_vm_data.py\<close>, branch by branch.\<close>

definition categorize_sku :: "string \<Rightarrow> string" where
  "categorize_sku sku_description =
     (let sku_lower = lower sku_description
      in if contains ''vm state'' sku_lower \<or> contains ''ssd'' sku_lower then ''Storage''
         else if contains ''network'' sku_lower \<and> contains ''inter zone'' sku_lower
           then ''Network_InterZone''
         else if contains ''network'' sku_lower \<and> contains ''intra zone'' sku_lower
           then ''Network_IntraZone''
         else if contains ''network'' sku_lower \<and> contains ''google services'' sku_lower
           then ''Network_GoogleServices''
         else if contains ''network'' sku_lower then ''Network_Other''
         else ''Other'')"

text \<open>
  The classification as the specification words it. Two characters are the same letter
  up to case when they are equal or are the two forms of one of the letters A to Z,
  read off a table; a word occurs in a description, case-insensitively, when the
  description holds a block that matches the word character by character up to case.
  The rules are tried in their priority order and the first that applies gives the
  category. The words of the rules are written in small letters and blanks.
\<close>

definition letter_pairs :: "(char \<times> char) list" where
  "letter_pairs = zip ''ABCDEFGHIJKLMNOPQRSTUVWXYZ'' ''abcdefghijklmnopqrstuvwxyz''"

definition same_letter :: "char \<Rightarrow> char \<Rightarrow> bool" where
  "same_letter c d = (c = d \<or> (c, d) \<in> set letter_pairs \<or> (d, c) \<in> set letter_pairs)"

definition occurs_in :: "string \<Rightarrow> string \<Rightarrow> bool" where
  "occurs_in word s =
     (\<exists>before mid after. s = before @ mid @ after \<and> list_all2 same_letter mid word)"

definition plain_word :: "string \<Rightarrow> bool" where
  "plain_word w = (\<forall>c\<in>set w. c \<in> set ''abcdefghijklmnopqrstuvwxyz '')"

fun first_match :: "(bool \<times> string) list \<Rightarrow> string \<Rightarrow> string" where
  "first_match [] dflt = dflt"
| "first_match ((applies, category) # rules) dflt =
     (if applies then category else first_match rules dflt)"

definition sku_rules_spec :: "string \<Rightarrow> string" where
  "sku_rules_spec s =
     first_match
       [(occurs_in ''vm state'' s \<or> occurs_in ''ssd'' s, ''Storage''),
        (occurs_in ''network'' s \<and> occurs_in ''inter zone'' s, ''Network_InterZone''),
        (occurs_in ''network'' s \<and> occurs_in ''intra zone'' s, ''Network_IntraZone''),
        (occurs_in ''network'' s \<and> occurs_in ''google services'' s, ''Network_GoogleServices''),
        (occurs_in ''network'' s, ''Network_Other'')]
       ''Other''"

definition sku_categories :: "string set" where
  "sku_categories =
     {''Storage'', ''Network_InterZone'', ''Network_IntraZone'', ''Network_GoogleServices'',
      ''Network_Other'', ''Other''}"

section \<open>Floating-point cells\<close>

text \<open>
  A cell of a numeric column is a float: a finite value (taken as an exact real), one of
  the two infinities, or NaN, which pandas also uses for a missing value. The
  operations follow IEEE 754 on these four kinds of value; rounding is not modelled.
\<close>

datatype fval = Fin real | PInf | NInf | NaN

fun isna :: "fval \<Rightarrow> bool" where
  "isna NaN = True"
| "isna _ = False"

fun fneg :: "fval \<Rightarrow> fval" where
  "fneg (Fin a) = Fin (- a)"
| "fneg PInf = NInf"
| "fneg NInf = PInf"
| "fneg NaN = NaN"

fun fadd :: "fval \<Rightarrow> fval \<Rightarrow> fval" where
  "fadd (Fin a) (Fin b) = Fin (a + b)"
| "fadd NaN _ = NaN"
| "fadd _ NaN = NaN"
| "fadd PInf NInf = NaN"
| "fadd NInf PInf = NaN"
| "fadd PInf _ = PInf"
| "fadd _ PInf = PInf"
| "fadd NInf _ = NInf"
| "fadd _ NInf = NInf"

definition fsub :: "fval \<Rightarrow> fval \<Rightarrow> fval" where
  "fsub a b = fadd a (fneg b)"

text \<open>The sign of a value, for the products and quotients with an infinity.\<close>

fun fsign :: "fval \<Rightarrow> int" where
  "fsign (Fin a) = (if a < 0 then - 1 else if a = 0 then 0 else 1)"
| "fsign PInf = 1"
| "fsign NInf = - 1"
| "fsign NaN = 0"

definition signed_inf :: "int \<Rightarrow> fval" where
  "signed_inf s = (if s < 0 then NInf else if s = 0 then NaN else PInf)"

fun fmul :: "fval \<Rightarrow> fval \<Rightarrow> fval" where
  "fmul (Fin a) (Fin b) = Fin (a * b)"
| "fmul NaN _ = NaN"
| "fmul _ NaN = NaN"
| "fmul a b = signed_inf (fsign a * fsign b)"

text \<open>
  Division of floats does not raise: a finite non-zero value over zero is an infinity,
  zero over zero is NaN.
\<close>

fun fdiv :: "fval \<Rightarrow> fval \<Rightarrow> fval" where
  "fdiv (Fin a) (Fin b) = (if b = 0 then signed_inf (fsign (Fin a)) else Fin (a / b))"
| "fdiv NaN _ = NaN"
| "fdiv _ NaN = NaN"
| "fdiv (Fin a) _ = Fin 0"
| "fdiv a (Fin b) = signed_inf (fsign a * (if b < 0 then - 1 else 1))"
| "fdiv _ _ = NaN"

fun fsqrt :: "fval \<Rightarrow> fval" where
  "fsqrt (Fin a) = (if a < 0 then NaN else Fin (sqrt a))"
| "fsqrt PInf = PInf"
| "fsqrt NInf = NaN"
| "fsqrt NaN = NaN"

fun fabs :: "fval \<Rightarrow> fval" where
  "fabs (Fin a) = Fin \<bar>a\<bar>"
| "fabs NaN = NaN"
| "fabs _ = PInf"

text \<open>Comparisons: every comparison with NaN is false.\<close>

fun flt :: "fval \<Rightarrow> fval \<Rightarrow> bool" where
  "flt NaN _ = False"
| "flt _ NaN = False"
| "flt (Fin a) (Fin b) = (a < b)"
| "flt NInf NInf = False"
| "flt NInf _ = True"
| "flt _ NInf = False"
| "flt PInf _ = False"
| "flt _ PInf = True"

definition fgt :: "fval \<Rightarrow> fval \<Rightarrow> bool" where
  "fgt a b = flt b a"

definition fle :: "fval \<Rightarrow> fval \<Rightarrow> bool" where
  "fle a b = (\<not> isna a \<and> \<not> isna b \<and> \<not> flt b a)"

text \<open>A raw numeric field that is missing is NaN in its column.\<close>

fun num :: "real option \<Rightarrow> fval" where
  "num None = NaN"
| "num (Some a) = Fin a"

section \<open>Binary64 arithmetic\<close>

text \<open>
  The program computes on IEEE 754 binary64 numbers. An arithmetic operation gives the
  exact result rounded to the nearest binary64 number, a tie going to the even
  significand, and a result beyond the finite range becomes an infinity. The exponent
  of a number other than zero is \<open>\<lfloor>log\<^sub>2 |x|\<rfloor>\<close>, and \<open>-1022\<close> for the subnormal numbers
  below that; a unit in the last place is \<open>2\<close> to the exponent less 52; rounding takes
  the exact value to the nearest multiple of that unit.

  The sums and means of the aggregation are taken in exact arithmetic (the operations
  of the section before); the operations below are the rounded ones, used where a
  result is compared with a threshold or can leave the finite range.
\<close>

definition round_half_even :: "real \<Rightarrow> int" where
  "round_half_even m =
     (let f = \<lfloor>m\<rfloor>
      in if m - of_int f < 1 / 2 then f
         else if m - of_int f > 1 / 2 then f + 1
         else if even f then f else f + 1)"

definition f64_exponent :: "real \<Rightarrow> int" where
  "f64_exponent x = max \<lfloor>log 2 \<bar>x\<bar>\<rfloor> (- 1022)"

definition f64_ulp :: "real \<Rightarrow> real" where
  "f64_ulp x = 2 powi (f64_exponent x - 52)"

definition round64 :: "real \<Rightarrow> fval" where
  "round64 x =
     (if x = 0 then Fin 0
      else let y = of_int (round_half_even (x / f64_ulp x)) * f64_ulp x
        in if y \<ge> 2 ^ 1024 then PInf else if y \<le> - (2 ^ 1024) then NInf else Fin y)"

fun f64_round :: "fval \<Rightarrow> fval" where
  "f64_round (Fin x) = round64 x"
| "f64_round v = v"

definition f64_add :: "fval \<Rightarrow> fval \<Rightarrow> fval" where
  "f64_add a b = f64_round (fadd a b)"

definition f64_sub :: "fval \<Rightarrow> fval \<Rightarrow> fval" where
  "f64_sub a b = f64_round (fsub a b)"

definition f64_mul :: "fval \<Rightarrow> fval \<Rightarrow> fval" where
  "f64_mul a b = f64_round (fmul a b)"

definition f64_div :: "fval \<Rightarrow> fval \<Rightarrow> fval" where
  "f64_div a b = f64_round (fdiv a b)"

text \<open>The binary64 number that the literal \<open>0.001\<close> denotes.\<close>

definition f64_0_001 :: real where
  "f64_0_001 = 1152921504606847 / 1152921504606846976"

text \<open>The binary64 number that the literal \<open>5.01\<close> denotes.\<close>

definition f64_5_01 :: real where
  "f64_5_01 = 2820379266640773 / 562949953421312"

fun is_finite :: "fval \<Rightarrow> bool" where
  "is_finite (Fin x) = True"
| "is_finite _ = False"

section \<open>Sorting and distinct values\<close>

text \<open>A stable insertion sort by a comparison, the order pandas gives rows that tie.\<close>

fun insert_by :: "('a \<Rightarrow> 'a \<Rightarrow> bool) \<Rightarrow> 'a \<Rightarrow> 'a list \<Rightarrow> 'a list" where
  "insert_by le x [] = [x]"
| "insert_by le x (y # ys) = (if le x y then x # y # ys else y # insert_by le x ys)"

definition sort_by :: "('a \<Rightarrow> 'a \<Rightarrow> bool) \<Rightarrow> 'a list \<Rightarrow> 'a list" where
  "sort_by le xs = foldr (insert_by le) xs []"

text \<open>\<open>Series.unique()\<close>: the distinct values in the order of their first appearance.\<close>

fun unique :: "'a list \<Rightarrow> 'a list" where
  "unique [] = []"
| "unique (x # xs) = x # filter (\<lambda>y. y \<noteq> x) (unique xs)"

section \<open>Reductions of a numeric column\<close>

text \<open>
  The pandas reductions skip NaN. The sum of no value is 0, the mean, minimum and
  maximum of no value are NaN, and the sample standard deviation (one degree of freedom
  removed) of fewer than two values is NaN.
\<close>

definition dropna :: "fval list \<Rightarrow> fval list" where
  "dropna xs = filter (\<lambda>x. \<not> isna x) xs"

fun fsum :: "fval list \<Rightarrow> fval" where
  "fsum [] = Fin 0"
| "fsum (x # xs) = fadd x (fsum xs)"

definition s_sum :: "fval list \<Rightarrow> fval" where
  "s_sum xs = fsum (dropna xs)"

definition s_mean :: "fval list \<Rightarrow> fval" where
  "s_mean xs = fdiv (s_sum xs) (Fin (real (length (dropna xs))))"

fun fmin_list :: "fval list \<Rightarrow> fval" where
  "fmin_list [] = NaN"
| "fmin_list [x] = x"
| "fmin_list (x # xs) = (let m = fmin_list xs in if flt m x then m else x)"

fun fmax_list :: "fval list \<Rightarrow> fval" where
  "fmax_list [] = NaN"
| "fmax_list [x] = x"
| "fmax_list (x # xs) = (let m = fmax_list xs in if flt x m then m else x)"

definition s_min :: "fval list \<Rightarrow> fval" where
  "s_min xs = fmin_list (dropna xs)"

definition s_max :: "fval list \<Rightarrow> fval" where
  "s_max xs = fmax_list (dropna xs)"

definition s_std :: "fval list \<Rightarrow> fval" where
  "s_std xs =
     (let ys = dropna xs; n = length ys; m = s_mean ys
      in if n \<le> 1 then NaN
         else fsqrt (fdiv (fsum (map (\<lambda>y. fmul (fsub y m) (fsub y m)) ys))
                          (Fin (real n - 1))))"

text \<open>
  Quantiles interpolate linearly between the two neighbours of the position
  \<open>q * (n - 1)\<close> in the sorted values, with numpy's formula for the interpolation.
\<close>

definition lerp :: "fval \<Rightarrow> fval \<Rightarrow> real \<Rightarrow> fval" where
  "lerp a b t =
     (if t \<ge> 1 / 2 then fsub b (fmul (fsub b a) (Fin (1 - t)))
      else fadd a (fmul (fsub b a) (Fin t)))"

definition s_quantile :: "real \<Rightarrow> fval list \<Rightarrow> fval" where
  "s_quantile q xs =
     (let ys = sort_by fle (dropna xs); n = length ys
      in if n = 0 then NaN
         else let pos = q * (real n - 1); lo = nat \<lfloor>pos\<rfloor>; hi = min (lo + 1) (n - 1)
              in lerp (ys ! lo) (ys ! hi) (pos - real lo))"

definition s_median :: "fval list \<Rightarrow> fval" where
  "s_median xs =
     (let ys = sort_by fle (dropna xs); n = length ys
      in if n = 0 then NaN
         else if odd n then ys ! (n div 2)
         else fdiv (fadd (ys ! (n div 2 - 1)) (ys ! (n div 2))) (Fin 2))"

section \<open>Errors\<close>

text \<open>
  The exceptions the pipeline can raise: \<open>ValueError\<close> from \<open>pd.to_datetime\<close> on a
  timestamp that does not fit the format, \<open>AttributeError\<close> from \<open>.lower()\<close> on a
  description that is not a string, \<open>IndexError\<close> from \<open>.iloc[0]\<close> on an empty
  selection.
\<close>

datatype error = ValueError | AttributeError | IndexError

fun traverse :: "('a \<Rightarrow> error + 'b) \<Rightarrow> 'a list \<Rightarrow> error + 'b list" where
  "traverse f [] = Inr []"
| "traverse f (x # xs) =
     (case f x of
        Inl e \<Rightarrow> Inl e
      | Inr y \<Rightarrow> (case traverse f xs of Inl e \<Rightarrow> Inl e | Inr ys \<Rightarrow> Inr (y # ys)))"

section \<open>Timestamps and dates\<close>

text \<open>
  \<open>pd.to_datetime(..., format='%d-%m-%Y %H:%M')\<close> is pandas' parser. It is a parameter
  \<open>strptime\<close> of the model: \<open>None\<close> where pandas rejects the text. What it returns is a
  calendar timestamp, so a result whose fields are out of range counts as rejected too.
  A date is the triple (year, month, day); \<open>str\<close> of a date is its ISO form.
\<close>

record datetime =
  year :: nat
  month :: nat
  day :: nat
  hour :: nat
  minute :: nat

type_synonym date = "nat \<times> nat \<times> nat"

definition valid_datetime :: "datetime \<Rightarrow> bool" where
  "valid_datetime t =
     (1 \<le> year t \<and> year t \<le> 9999 \<and> 1 \<le> month t \<and> month t \<le> 12 \<and>
      1 \<le> day t \<and> day t \<le> 31 \<and> hour t < 24 \<and> minute t < 60)"

definition to_datetime :: "(string \<Rightarrow> datetime option) \<Rightarrow> string \<Rightarrow> error + datetime" where
  "to_datetime strptime s =
     (case strptime s of
        None \<Rightarrow> Inl ValueError
      | Some t \<Rightarrow> if valid_datetime t then Inr t else Inl ValueError)"

definition dt_date :: "datetime \<Rightarrow> date" where
  "dt_date t = (year t, month t, day t)"

definition digit :: "nat \<Rightarrow> char" where
  "digit n = ''0123456789'' ! (n mod 10)"

definition pad2 :: "nat \<Rightarrow> string" where
  "pad2 n = [digit (n div 10), digit n]"

definition pad4 :: "nat \<Rightarrow> string" where
  "pad4 n = [digit (n div 1000), digit (n div 100), digit (n div 10), digit n]"

fun date_str :: "date \<Rightarrow> string" where
  "date_str (y, m, d) = pad4 y @ ''-'' @ pad2 m @ ''-'' @ pad2 d"

section \<open>Extraction from the resource name\<close>

text \<open>
  \<open>Series.str.extract(pattern)\<close> searches each name for the leftmost match of the
  pattern and gives its group, and NaN where there is no match or the name is missing.
  The three patterns are a literal followed by a group: \<open>(\d+)\<close>, the longest run of
  digits, which must not be empty, and \<open>([^/]+)/\<close>, the longest run of characters other
  than a slash, which must not be empty and must be followed by a slash.
\<close>

fun re_search :: "string \<Rightarrow> (string \<Rightarrow> string option) \<Rightarrow> string \<Rightarrow> string option" where
  "re_search lit grp [] = None"
| "re_search lit grp (c # cs) =
     (case (if prefix lit (c # cs) then grp (drop (length lit) (c # cs)) else None) of
        Some g \<Rightarrow> Some g
      | None \<Rightarrow> re_search lit grp cs)"

definition is_digit :: "char \<Rightarrow> bool" where
  "is_digit c = (c \<in> set ''0123456789'')"

definition digits_group :: "string \<Rightarrow> string option" where
  "digits_group rest = (case takeWhile is_digit rest of [] \<Rightarrow> None | d # ds \<Rightarrow> Some (d # ds))"

definition segment_group :: "string \<Rightarrow> string option" where
  "segment_group rest =
     (let g = takeWhile (\<lambda>c. c \<noteq> CHR ''/'') rest
      in if g \<noteq> [] \<and> prefix ''/'' (drop (length g) rest) then Some g else None)"

definition extract_instance_id :: "string option \<Rightarrow> string option" where
  "extract_instance_id name =
     (case name of None \<Rightarrow> None | Some s \<Rightarrow> re_search ''/instances/'' digits_group s)"

definition extract_zone :: "string option \<Rightarrow> string option" where
  "extract_zone name =
     (case name of None \<Rightarrow> None | Some s \<Rightarrow> re_search ''/zones/'' segment_group s)"

definition extract_project_id :: "string option \<Rightarrow> string option" where
  "extract_project_id name =
     (case name of None \<Rightarrow> None | Some s \<Rightarrow> re_search ''/projects/'' segment_group s)"

section \<open>Raw events and derived columns\<close>

text \<open>
  One row of the raw frame. A field that is missing in the input is \<open>None\<close>; the
  timestamp is the text before parsing.
\<close>

record raw_event =
  timestamp :: string
  resource_global_name :: "string option"
  cpu_utilization :: "real option"
  memory_used_bytes :: "real option"
  disk_read_bytes :: "real option"
  disk_write_bytes :: "real option"
  ingress_bytes :: "real option"
  egress_bytes :: "real option"
  uptime_fraction :: "real option"
  cost_usd :: "real option"
  sku_description :: "string option"

text \<open>The derived numeric columns of \<open>preprocess_vm_data\<close>, each as a function of its row.\<close>

definition memory_used_gb :: "raw_event \<Rightarrow> fval" where
  "memory_used_gb e = fdiv (num (memory_used_bytes e)) (Fin (1024 ^ 3))"

definition cost_per_cpu :: "raw_event \<Rightarrow> fval" where
  "cost_per_cpu e = f64_div (num (cost_usd e)) (f64_add (num (cpu_utilization e)) (Fin f64_0_001))"

definition network_total_bytes :: "raw_event \<Rightarrow> fval" where
  "network_total_bytes e = fadd (num (ingress_bytes e)) (num (egress_bytes e))"

definition disk_total_bytes :: "raw_event \<Rightarrow> fval" where
  "disk_total_bytes e = fadd (num (disk_read_bytes e)) (num (disk_write_bytes e))"

text \<open>
  A row of the frame before grouping: the event with its date and its SKU category.
  The columns \<open>hour\<close> and \<open>day_of_week\<close> are computed by the source and never read.
\<close>

record row =
  event :: raw_event
  row_date :: date
  row_sku_category :: string

type_synonym group_key = "date \<times> string option \<times> string option \<times> string option"

definition row_key :: "row \<Rightarrow> group_key" where
  "row_key r =
     (row_date r,
      extract_instance_id (resource_global_name (event r)),
      extract_project_id (resource_global_name (event r)),
      extract_zone (resource_global_name (event r)))"

section \<open>Grouping and aggregation\<close>

text \<open>Missing key values sort after every present one.\<close>

fun na_last_lt :: "string option \<Rightarrow> string option \<Rightarrow> bool" where
  "na_last_lt (Some a) (Some b) = (a < b)"
| "na_last_lt (Some a) None = True"
| "na_last_lt None _ = False"

fun key_le :: "group_key \<Rightarrow> group_key \<Rightarrow> bool" where
  "key_le (d1, i1, p1, z1) (d2, i2, p2, z2) =
     (d1 < d2 \<or> (d1 = d2 \<and>
       (na_last_lt i1 i2 \<or> (i1 = i2 \<and>
         (na_last_lt p1 p2 \<or> (p1 = p2 \<and> \<not> na_last_lt z2 z1))))))"

text \<open>
  \<open>groupby(keys, dropna=False)\<close>: one group for each distinct key, a missing value being
  a key value like any other, the groups in the order of their keys and each with its
  rows in the order of the frame.
\<close>

definition groupby :: "('a \<Rightarrow> 'k) \<Rightarrow> ('k \<Rightarrow> 'k \<Rightarrow> bool) \<Rightarrow> 'a list \<Rightarrow> ('k \<times> 'a list) list" where
  "groupby key le rows =
     map (\<lambda>k. (k, filter (\<lambda>r. key r = k) rows)) (sort_by le (unique (map key rows)))"

text \<open>
  \<open>Series.mode()\<close>: the values that occur most often, sorted. The aggregation of the
  category is the source's lambda: the first of the modes, and the first value of the
  group should there be no mode.
\<close>

definition mode :: "string list \<Rightarrow> string list" where
  "mode xs =
     (let top = foldr max (map (count_list xs) xs) 0
      in sort (filter (\<lambda>v. count_list xs v = top) (unique xs)))"

definition sku_category_agg :: "string list \<Rightarrow> error + string" where
  "sku_category_agg x =
     (if length (mode x) > 0 then Inr (hd (mode x))
      else (case x of [] \<Rightarrow> Inl IndexError | v # _ \<Rightarrow> Inr v))"

text \<open>One row of the aggregate table, with the flattened column names.\<close>

record agg =
  date :: string
  instance_id :: "string option"
  project_id :: "string option"
  zone :: "string option"
  cpu_utilization_mean :: fval
  cpu_utilization_std :: fval
  cpu_utilization_min :: fval
  cpu_utilization_max :: fval
  memory_used_gb_mean :: fval
  memory_used_gb_std :: fval
  memory_used_gb_min :: fval
  memory_used_gb_max :: fval
  disk_read_bytes_sum :: fval
  disk_read_bytes_mean :: fval
  disk_write_bytes_sum :: fval
  disk_write_bytes_mean :: fval
  ingress_bytes_sum :: fval
  ingress_bytes_mean :: fval
  egress_bytes_sum :: fval
  egress_bytes_mean :: fval
  network_total_bytes_sum :: fval
  network_total_bytes_mean :: fval
  disk_total_bytes_sum :: fval
  disk_total_bytes_mean :: fval
  uptime_fraction_mean :: fval
  uptime_fraction_min :: fval
  uptime_fraction_max :: fval
  cost_usd_sum :: fval
  cost_usd_mean :: fval
  cost_usd_max :: fval
  cost_per_cpu_mean :: fval
  sku_category :: string

text \<open>
  The aggregation of one group, with the date already turned into its string (the
  source does so for the whole column right after the aggregation).
\<close>

fun agg_group :: "group_key \<times> row list \<Rightarrow> error + agg" where
  "agg_group ((d, i, p, z), rs) =
     (let es = map event rs;
          cpu = map (\<lambda>e. num (cpu_utilization e)) es;
          mem = map memory_used_gb es;
          dr = map (\<lambda>e. num (disk_read_bytes e)) es;
          dw = map (\<lambda>e. num (disk_write_bytes e)) es;
          ing = map (\<lambda>e. num (ingress_bytes e)) es;
          egr = map (\<lambda>e. num (egress_bytes e)) es;
          net = map network_total_bytes es;
          dsk = map disk_total_bytes es;
          upt = map (\<lambda>e. num (uptime_fraction e)) es;
          cost = map (\<lambda>e. num (cost_usd e)) es
      in case sku_category_agg (map row_sku_category rs) of
           Inl err \<Rightarrow> Inl err
         | Inr cat \<Rightarrow> Inr
            \<lparr> date = date_str d, instance_id = i, project_id = p, zone = z,
              cpu_utilization_mean = s_mean cpu, cpu_utilization_std = s_std cpu,
              cpu_utilization_min = s_min cpu, cpu_utilization_max = s_max cpu,
              memory_used_gb_mean = s_mean mem, memory_used_gb_std = s_std mem,
              memory_used_gb_min = s_min mem, memory_used_gb_max = s_max mem,
              disk_read_bytes_sum = s_sum dr, disk_read_bytes_mean = s_mean dr,
              disk_write_bytes_sum = s_sum dw, disk_write_bytes_mean = s_mean dw,
              ingress_bytes_sum = s_sum ing, ingress_bytes_mean = s_mean ing,
              egress_bytes_sum = s_sum egr, egress_bytes_mean = s_mean egr,
              network_total_bytes_sum = s_sum net, network_total_bytes_mean = s_mean net,
              disk_total_bytes_sum = s_sum dsk, disk_total_bytes_mean = s_mean dsk,
              uptime_fraction_mean = s_mean upt, uptime_fraction_min = s_min upt,
              uptime_fraction_max = s_max upt,
              cost_usd_sum = s_sum cost, cost_usd_mean = s_mean cost, cost_usd_max = s_max cost,
              cost_per_cpu_mean = s_mean (map cost_per_cpu es),
              sku_category = cat \<rparr>)"

section \<open>The preprocessor\<close>

text \<open>\<open>sort_values(['date', 'instance_id'])\<close>: ascending, stable, missing values last.\<close>

definition date_instance_le :: "agg \<Rightarrow> agg \<Rightarrow> bool" where
  "date_instance_le a b =
     (date a < date b \<or> (date a = date b \<and> \<not> na_last_lt (instance_id b) (instance_id a)))"

definition categorize :: "raw_event \<Rightarrow> error + string" where
  "categorize e =
     (case sku_description e of None \<Rightarrow> Inl AttributeError | Some s \<Rightarrow> Inr (categorize_sku s))"

definition mk_row :: "raw_event \<times> datetime \<times> string \<Rightarrow> row" where
  "mk_row x = (case x of (e, t, c) \<Rightarrow> \<lparr> event = e, row_date = dt_date t, row_sku_category = c \<rparr>)"

text \<open>
  \<open>preprocess_vm_data\<close> with \<open>save_to_file=False\<close>: writing the table to a file changes
  nothing in what is returned. The steps are in the source's order, so a batch with a
  bad timestamp raises before a missing description is looked at.
\<close>

definition preprocess_vm_data :: "(string \<Rightarrow> datetime option) \<Rightarrow> raw_event list \<Rightarrow> error + agg list" where
  "preprocess_vm_data strptime df =
     (case traverse (\<lambda>e. to_datetime strptime (timestamp e)) df of
        Inl err \<Rightarrow> Inl err
      | Inr ts \<Rightarrow>
         (case traverse categorize df of
            Inl err \<Rightarrow> Inl err
          | Inr cats \<Rightarrow>
             (case traverse agg_group (groupby row_key key_le (map mk_row (zip df (zip ts cats)))) of
                Inl err \<Rightarrow> Inl err
              | Inr daily \<Rightarrow> Inr (sort_by date_instance_le daily))))"

section \<open>Report values\<close>

text \<open>
  The analyzer returns nested Python dictionaries of floats, ints, strings and lists.
  A dictionary is the list of its items in insertion order; the analyzer only ever
  inserts keys that are not yet present.
\<close>

datatype pyval =
    PFloat fval
  | PInt int
  | PStr string
  | PList "pyval list"
  | PDict "(string \<times> pyval) list"

fun dict_get :: "pyval \<Rightarrow> string \<Rightarrow> pyval option" where
  "dict_get (PDict items) k = map_of items k"
| "dict_get _ k = None"

fun dict_keys :: "pyval \<Rightarrow> string list" where
  "dict_keys (PDict items) = map fst items"
| "dict_keys _ = []"

text \<open>
  \<open>str(instance_id)\<close>: the id itself, and \<open>nan\<close> for a missing id.
  \<open>df[df['instance_id'] == instance_id]\<close>: the rows of that instance in the order of
  the table; a missing id compares unequal to everything, itself included, so its
  selection is empty. \<open>min()\<close> and \<open>max()\<close> of a column of strings, and NaN, printed
  \<open>nan\<close>, for an empty column.
\<close>

fun str_id :: "string option \<Rightarrow> string" where
  "str_id None = ''nan''"
| "str_id (Some i) = i"

fun instance_rows :: "agg list \<Rightarrow> string option \<Rightarrow> agg list" where
  "instance_rows df None = []"
| "instance_rows df (Some i) = filter (\<lambda>r. instance_id r = Some i) df"

fun str_min :: "string list \<Rightarrow> string" where
  "str_min [] = ''nan''"
| "str_min (x # xs) = foldr min xs x"

fun str_max :: "string list \<Rightarrow> string" where
  "str_max [] = ''nan''"
| "str_max (x # xs) = foldr max xs x"

definition gb :: "fval \<Rightarrow> fval" where
  "gb x = f64_div x (Fin (1024 ^ 3))"

section \<open>The reductions of the analyzer\<close>

text \<open>
  The analyzer reduces columns with \<open>mean\<close>, \<open>sum\<close>, \<open>median\<close>, \<open>std\<close> and \<open>quantile\<close> of
  pandas, on a column and on the groups of a \<open>groupby\<close>. They compute in binary64, and
  the order in which the values of a column are added is that of the installed
  libraries (blocks added pairwise, one pass, or a compensated sum for the groups), so
  the program does not fix the rounded result. The analyzer is modelled over a record
  of these reductions, and what is proved of it holds for every choice of them. They
  receive the column as it is, missing values included. Minimum and maximum select a
  value of the column and are exact. The arithmetic that the program writes out itself
  is the binary64 arithmetic of the section on it.
\<close>

record pandas =
  pd_mean :: "fval list \<Rightarrow> fval"
  pd_sum :: "fval list \<Rightarrow> fval"
  pd_median :: "fval list \<Rightarrow> fval"
  pd_std :: "fval list \<Rightarrow> fval"
  pd_quantile :: "real \<Rightarrow> fval list \<Rightarrow> fval"
  pd_group_mean :: "fval list \<Rightarrow> fval"
  pd_group_sum :: "fval list \<Rightarrow> fval"

text \<open>
  One choice of the reductions, for worked tables: the values that are not missing are
  added in one pass from the left, and every operation is rounded. The standard
  deviation takes the mean first and then the squared distances from it; the median
  of an even number of values is the mean of the two in the middle; the quantile
  interpolates as in the exact reduction.
\<close>

definition f64_sqrt :: "fval \<Rightarrow> fval" where
  "f64_sqrt a = f64_round (fsqrt a)"

definition f64_sum :: "fval list \<Rightarrow> fval" where
  "f64_sum xs = foldl f64_add (Fin 0) (dropna xs)"

definition f64_mean :: "fval list \<Rightarrow> fval" where
  "f64_mean xs = f64_div (f64_sum xs) (Fin (real (length (dropna xs))))"

definition f64_median :: "fval list \<Rightarrow> fval" where
  "f64_median xs =
     (let ys = sort_by fle (dropna xs); n = length ys
      in if n = 0 then NaN
         else if odd n then ys ! (n div 2)
         else f64_div (f64_add (ys ! (n div 2 - 1)) (ys ! (n div 2))) (Fin 2))"

definition f64_std :: "fval list \<Rightarrow> fval" where
  "f64_std xs =
     (let ys = dropna xs; n = length ys; m = f64_mean ys
      in if n \<le> 1 then NaN
         else f64_sqrt (f64_div (f64_sum (map (\<lambda>y. f64_mul (f64_sub m y) (f64_sub m y)) ys))
                                (Fin (real n - 1))))"

definition f64_lerp :: "fval \<Rightarrow> fval \<Rightarrow> fval \<Rightarrow> fval" where
  "f64_lerp a b t =
     (if fle (Fin (1 / 2)) t then f64_sub b (f64_mul (f64_sub b a) (f64_sub (Fin 1) t))
      else f64_add a (f64_mul (f64_sub b a) t))"

definition f64_quantile :: "real \<Rightarrow> fval list \<Rightarrow> fval" where
  "f64_quantile q xs =
     (let ys = sort_by fle (dropna xs); n = length ys
      in if n = 0 then NaN
         else case f64_mul (Fin q) (Fin (real n - 1)) of
                Fin pos \<Rightarrow>
                  (let lo = nat \<lfloor>pos\<rfloor>; hi = min (lo + 1) (n - 1)
                   in f64_lerp (ys ! min lo (n - 1)) (ys ! hi) (f64_sub (Fin pos) (Fin (real lo))))
              | _ \<Rightarrow> NaN)"

definition one_pass :: pandas where
  "one_pass = \<lparr> pd_mean = f64_mean, pd_sum = f64_sum, pd_median = f64_median,
                pd_std = f64_std, pd_quantile = f64_quantile,
                pd_group_mean = f64_mean, pd_group_sum = f64_sum \<rparr>"

section \<open>Trend analysis\<close>

text \<open>
  The percent change \<open>((last - first) / first) * 100\<close>, which the source writes out in
  both classifiers: three binary64 operations, each rounded.
\<close>

definition pct_change :: "fval \<Rightarrow> fval \<Rightarrow> fval" where
  "pct_change first_val last_val =
     f64_mul (f64_div (f64_sub last_val first_val) first_val) (Fin 100)"

text \<open>\<open>get_trend_direction\<close>: the column is passed as its selector.\<close>

definition get_trend_direction :: "pandas \<Rightarrow> agg list \<Rightarrow> (agg \<Rightarrow> fval) \<Rightarrow> string" where
  "get_trend_direction pd df metric =
     (if length df < 2 then ''insufficient_data''
      else let metric_data = dropna (map metric df)
        in if length metric_data < 2 then ''insufficient_data''
           else let mid_point = length metric_data div 2;
                    first_half_mean = pd_mean pd (take mid_point metric_data);
                    second_half_mean = pd_mean pd (drop mid_point metric_data)
             in if first_half_mean = Fin 0 then ''stable''
                else let pct = pct_change first_half_mean second_half_mean
                  in if fgt pct (Fin 5) then ''increasing''
                     else if flt pct (Fin (- 5)) then ''decreasing''
                     else ''stable'')"

text \<open>
  The frame \<open>date_aggregated\<close> of \<open>get_trend_analysis\<close>: one row for each date, the
  rate metrics averaged and the volume metrics summed over the instances.
\<close>

record date_row =
  dr_date :: string
  dr_cpu_utilization_mean :: fval
  dr_memory_used_gb_mean :: fval
  dr_cost_usd_sum :: fval
  dr_uptime_fraction_mean :: fval
  dr_network_total_bytes_sum :: fval

definition date_aggregated :: "pandas \<Rightarrow> agg list \<Rightarrow> date_row list" where
  "date_aggregated pd df =
     sort_by (\<lambda>a b. dr_date a \<le> dr_date b)
       (map (\<lambda>(d, rs).
              \<lparr> dr_date = d,
                dr_cpu_utilization_mean = pd_group_mean pd (map cpu_utilization_mean rs),
                dr_memory_used_gb_mean = pd_group_mean pd (map memory_used_gb_mean rs),
                dr_cost_usd_sum = pd_group_sum pd (map cost_usd_sum rs),
                dr_uptime_fraction_mean = pd_group_mean pd (map uptime_fraction_mean rs),
                dr_network_total_bytes_sum = pd_group_sum pd (map network_total_bytes_sum rs) \<rparr>)
            (groupby date (\<le>) df))"

text \<open>
  The body of the loop over the overall metrics: the entry of one metric, and nothing
  when the first value is zero or either value is missing.
\<close>

definition overall_metric :: "string \<Rightarrow> fval \<Rightarrow> fval \<Rightarrow> (string \<times> pyval) list" where
  "overall_metric label first_val last_val =
     (if first_val \<noteq> Fin 0 \<and> \<not> isna first_val \<and> \<not> isna last_val
      then let pct = pct_change first_val last_val
        in [(label, PDict
              [(''start_value'', PFloat first_val),
               (''end_value'', PFloat last_val),
               (''percent_change'', PFloat pct),
               (''trend'', PStr (if fgt pct (Fin 5) then ''increasing''
                                 else if flt pct (Fin (- 5)) then ''decreasing''
                                 else ''stable''))])]
      else [])"

definition overall_trends :: "date_row \<Rightarrow> date_row \<Rightarrow> pyval" where
  "overall_trends first_row last_row =
     PDict ([(''date_range'', PDict [(''start_date'', PStr (dr_date first_row)),
                                     (''end_date'', PStr (dr_date last_row))])]
       @ overall_metric ''CPU Utilization''
           (dr_cpu_utilization_mean first_row) (dr_cpu_utilization_mean last_row)
       @ overall_metric ''Memory Usage (GB)''
           (dr_memory_used_gb_mean first_row) (dr_memory_used_gb_mean last_row)
       @ overall_metric ''Daily Cost'' (dr_cost_usd_sum first_row) (dr_cost_usd_sum last_row)
       @ overall_metric ''Uptime Fraction''
           (dr_uptime_fraction_mean first_row) (dr_uptime_fraction_mean last_row)
       @ overall_metric ''Total Network Traffic''
           (dr_network_total_bytes_sum first_row) (dr_network_total_bytes_sum last_row))"

text \<open>
  The per-instance report of one instance, block by block as in the source. Each block
  is present when its column has a value that is not missing.
\<close>

definition std_or_zero :: "pandas \<Rightarrow> fval list \<Rightarrow> fval" where
  "std_or_zero pd data = (if length data > 1 then pd_std pd data else Fin 0)"

definition instance_trends :: "pandas \<Rightarrow> agg list \<Rightarrow> pyval" where
  "instance_trends pd instance_df =
     (let cpu_data = dropna (map cpu_utilization_mean instance_df);
          mem_data = dropna (map memory_used_gb_mean instance_df);
          cost_data = dropna (map cost_usd_sum instance_df);
          uptime_data = dropna (map uptime_fraction_mean instance_df);
          network_data = dropna (map network_total_bytes_sum instance_df);
          disk_read_data = dropna (map disk_read_bytes_sum instance_df);
          disk_write_data = dropna (map disk_write_bytes_sum instance_df);
          ingress_data = dropna (map ingress_bytes_sum instance_df);
          egress_data = dropna (map egress_bytes_sum instance_df);
          cost_eff_data = dropna (map cost_per_cpu_mean instance_df)
      in PDict (
        [(''date_range'', PDict
           [(''start_date'', PStr (str_min (map date instance_df))),
            (''end_date'', PStr (str_max (map date instance_df))),
            (''total_days'', PInt (int (length instance_df)))])]
        @ (if length cpu_data > 0 then
             [(''cpu_utilization'', PDict
                [(''mean'', PFloat (pd_mean pd cpu_data)),
                 (''median'', PFloat (pd_median pd cpu_data)),
                 (''min'', PFloat (s_min cpu_data)),
                 (''max'', PFloat (s_max cpu_data)),
                 (''std'', PFloat (std_or_zero pd cpu_data)),
                 (''trend'', PStr (get_trend_direction pd instance_df cpu_utilization_mean))])]
           else [])
        @ (if length mem_data > 0 then
             [(''memory_usage_gb'', PDict
                [(''mean'', PFloat (pd_mean pd mem_data)),
                 (''median'', PFloat (pd_median pd mem_data)),
                 (''min'', PFloat (s_min mem_data)),
                 (''max'', PFloat (s_max mem_data)),
                 (''std'', PFloat (std_or_zero pd mem_data)),
                 (''trend'', PStr (get_trend_direction pd instance_df memory_used_gb_mean))])]
           else [])
        @ (if length cost_data > 0 then
             [(''cost'', PDict
                [(''total'', PFloat (pd_sum pd cost_data)),
                 (''mean_daily'', PFloat (pd_mean pd cost_data)),
                 (''median_daily'', PFloat (pd_median pd cost_data)),
                 (''min_daily'', PFloat (s_min cost_data)),
                 (''max_daily'', PFloat (s_max cost_data)),
                 (''std'', PFloat (std_or_zero pd cost_data)),
                 (''trend'', PStr (get_trend_direction pd instance_df cost_usd_sum))])]
           else [])
        @ (if length uptime_data > 0 then
             [(''uptime_fraction'', PDict
                [(''mean'', PFloat (pd_mean pd uptime_data)),
                 (''median'', PFloat (pd_median pd uptime_data)),
                 (''min'', PFloat (s_min uptime_data)),
                 (''max'', PFloat (s_max uptime_data)),
                 (''std'', PFloat (std_or_zero pd uptime_data)),
                 (''trend'', PStr (get_trend_direction pd instance_df uptime_fraction_mean))])]
           else [])
        @ (if length network_data > 0 then
             [(''network_traffic'', PDict
                [(''total_gb'', PFloat (gb (pd_sum pd network_data))),
                 (''mean_daily_gb'', PFloat (gb (pd_mean pd network_data))),
                 (''median_daily_gb'', PFloat (gb (pd_median pd network_data))),
                 (''min_daily_gb'', PFloat (gb (s_min network_data))),
                 (''max_daily_gb'', PFloat (gb (s_max network_data))),
                 (''trend'', PStr (get_trend_direction pd instance_df network_total_bytes_sum))])]
           else [])
        @ (if length disk_read_data > 0 then
             [(''disk_read'', PDict
                [(''total_gb'', PFloat (gb (pd_sum pd disk_read_data))),
                 (''mean_daily_gb'', PFloat (gb (pd_mean pd disk_read_data))),
                 (''median_daily_gb'', PFloat (gb (pd_median pd disk_read_data))),
                 (''trend'', PStr (get_trend_direction pd instance_df disk_read_bytes_sum))])]
           else [])
        @ (if length disk_write_data > 0 then
             [(''disk_write'', PDict
                [(''total_gb'', PFloat (gb (pd_sum pd disk_write_data))),
                 (''mean_daily_gb'', PFloat (gb (pd_mean pd disk_write_data))),
                 (''median_daily_gb'', PFloat (gb (pd_median pd disk_write_data))),
                 (''trend'', PStr (get_trend_direction pd instance_df disk_write_bytes_sum))])]
           else [])
        @ (if length ingress_data > 0 then
             [(''network_ingress'', PDict
                [(''total_gb'', PFloat (gb (pd_sum pd ingress_data))),
                 (''mean_daily_gb'', PFloat (gb (pd_mean pd ingress_data))),
                 (''trend'', PStr (get_trend_direction pd instance_df ingress_bytes_sum))])]
           else [])
        @ (if length egress_data > 0 then
             [(''network_egress'', PDict
                [(''total_gb'', PFloat (gb (pd_sum pd egress_data))),
                 (''mean_daily_gb'', PFloat (gb (pd_mean pd egress_data))),
                 (''trend'', PStr (get_trend_direction pd instance_df egress_bytes_sum))])]
           else [])
        @ (if length cost_eff_data > 0 then
             [(''cost_efficiency'', PDict
                [(''mean_cost_per_cpu'', PFloat (pd_mean pd cost_eff_data)),
                 (''median_cost_per_cpu'', PFloat (pd_median pd cost_eff_data)),
                 (''min_cost_per_cpu'', PFloat (s_min cost_eff_data)),
                 (''max_cost_per_cpu'', PFloat (s_max cost_eff_data)),
                 (''trend'', PStr (get_trend_direction pd instance_df cost_per_cpu_mean))])]
           else [])))"

text \<open>
  \<open>get_trend_analysis\<close>. The table comes from the preprocessor and has every column, so
  the tests \<open>'...' in df.columns\<close> of the source all succeed. The loop runs over the
  distinct instance ids in the order of their first appearance; an instance without
  rows (the missing id) gets no entry.
\<close>

definition sorted_instance_df :: "agg list \<Rightarrow> string option \<Rightarrow> agg list" where
  "sorted_instance_df df i = sort_by (\<lambda>a b. date a \<le> date b) (instance_rows df i)"

definition get_trend_analysis :: "pandas \<Rightarrow> agg list \<Rightarrow> pyval" where
  "get_trend_analysis pd df =
     (let agg_dates = date_aggregated pd df
      in PDict (
        (if length agg_dates \<ge> 2
           then [(''overall'', overall_trends (hd agg_dates) (last agg_dates))] else [])
        @ [(''per_instance'', PDict
             (concat (map (\<lambda>i. let instance_df = sorted_instance_df df i
                                in if length instance_df \<ge> 1
                                   then [(str_id i, instance_trends pd instance_df)] else [])
                          (unique (map instance_id df)))))]))"

section \<open>Reading the table back\<close>

text \<open>
  What the statements below need to speak about the table: the key of an aggregate
  row, the key an event is grouped under (its date as a string and the three extracted
  fields), the events of a batch that share the key of an aggregate row, and the range
  of the dates a timestamp can carry.
\<close>

definition valid_date :: "date \<Rightarrow> bool" where
  "valid_date x = (case x of (y, m, d) \<Rightarrow> y < 10000 \<and> m < 100 \<and> d < 100)"

type_synonym table_key = "string \<times> string option \<times> string option \<times> string option"

definition agg_key :: "agg \<Rightarrow> table_key" where
  "agg_key a = (date a, instance_id a, project_id a, zone a)"

fun key_str :: "group_key \<Rightarrow> table_key" where
  "key_str (d, i, p, z) = (date_str d, i, p, z)"

definition event_key :: "(string \<Rightarrow> datetime option) \<Rightarrow> raw_event \<Rightarrow> table_key option" where
  "event_key strptime e =
     (case to_datetime strptime (timestamp e) of
        Inl err \<Rightarrow> None
      | Inr t \<Rightarrow> Some (date_str (dt_date t),
                  extract_instance_id (resource_global_name e),
                  extract_project_id (resource_global_name e),
                  extract_zone (resource_global_name e)))"

definition group_events :: "(string \<Rightarrow> datetime option) \<Rightarrow> raw_event list \<Rightarrow> agg \<Rightarrow> raw_event list" where
  "group_events strptime df a = filter (\<lambda>e. event_key strptime e = Some (agg_key a)) df"

definition row_ok :: "(string \<Rightarrow> datetime option) \<Rightarrow> row \<Rightarrow> bool" where
  "row_ok strptime r =
     (\<exists>t. to_datetime strptime (timestamp (event r)) = Inr t \<and> row_date r = dt_date t \<and>
          categorize (event r) = Inr (row_sku_category r))"

definition category_of :: "raw_event \<Rightarrow> string" where
  "category_of e = (case categorize e of Inl err \<Rightarrow> [] | Inr c \<Rightarrow> c)"

definition categories_of_group ::
  "(string \<Rightarrow> datetime option) \<Rightarrow> raw_event list \<Rightarrow> agg \<Rightarrow> string list" where
  "categories_of_group strptime df a = map category_of (group_events strptime df a)"

text \<open>The cost of an event, a missing cost counting as nothing, as pandas sums a column.\<close>

definition known_cost :: "raw_event \<Rightarrow> real" where
  "known_cost e = (case cost_usd e of None \<Rightarrow> 0 | Some c \<Rightarrow> c)"

text \<open>
  The patterns as the regular expressions read: an instance id is found when the name
  holds \<open>/instances/\<close> followed by at least one digit; a zone or a project is found
  when the name holds the literal followed by a non-empty run free of slashes and a
  slash.
\<close>

definition instance_pattern_found :: "string \<Rightarrow> bool" where
  "instance_pattern_found s =
     (\<exists>pre ds rest. s = pre @ ''/instances/'' @ ds @ rest \<and> ds \<noteq> [] \<and> (\<forall>c\<in>set ds. is_digit c))"

definition segment_pattern_found :: "string \<Rightarrow> string \<Rightarrow> bool" where
  "segment_pattern_found lit s =
     (\<exists>pre seg rest. s = pre @ lit @ seg @ ''/'' @ rest \<and> seg \<noteq> [] \<and> CHR ''/'' \<notin> set seg)"

definition no_instance_match :: "raw_event \<Rightarrow> bool" where
  "no_instance_match e = (\<forall>s. resource_global_name e = Some s \<longrightarrow> \<not> instance_pattern_found s)"

definition no_zone_match :: "raw_event \<Rightarrow> bool" where
  "no_zone_match e =
     (\<forall>s. resource_global_name e = Some s \<longrightarrow> \<not> segment_pattern_found ''/zones/'' s)"

definition no_project_match :: "raw_event \<Rightarrow> bool" where
  "no_project_match e =
     (\<forall>s. resource_global_name e = Some s \<longrightarrow> \<not> segment_pattern_found ''/projects/'' s)"

text \<open>
  The tie-break as the specification words it: the first value, in the order of the
  input, among those that occur most often.
\<close>

definition first_mode :: "string list \<Rightarrow> string option" where
  "first_mode xs = find (\<lambda>v. \<forall>w\<in>set xs. count_list xs w \<le> count_list xs v) xs"

section \<open>A worked batch\<close>

text \<open>
  Four events: two of one instance on one day, with the categories Storage and Other
  once each, one whose resource name matches no pattern, and one of the first instance
  on the next day. The parser knows the two timestamps of the batch.
\<close>

definition example_strptime :: "string \<Rightarrow> datetime option" where
  "example_strptime s =
     (if s = ''01-01-2024 10:00''
        then Some \<lparr>year = 2024, month = 1, day = 1, hour = 10, minute = 0\<rparr>
      else if s = ''02-01-2024 10:00''
        then Some \<lparr>year = 2024, month = 1, day = 2, hour = 10, minute = 0\<rparr>
      else None)"

definition example_event :: "string \<Rightarrow> string \<Rightarrow> real \<Rightarrow> real \<Rightarrow> string \<Rightarrow> raw_event" where
  "example_event ts name cpu cost sku =
     \<lparr> timestamp = ts, resource_global_name = Some name, cpu_utilization = Some cpu,
       memory_used_bytes = Some 1073741824, disk_read_bytes = Some 1, disk_write_bytes = Some 2,
       ingress_bytes = Some 3, egress_bytes = Some 4, uptime_fraction = Some 1,
       cost_usd = Some cost, sku_description = Some sku \<rparr>"

definition example_batch :: "raw_event list" where
  "example_batch =
     [example_event ''01-01-2024 10:00'' ''/projects/p1/zones/z1/instances/11'' 0.5 2
        ''SSD backed PD'',
      example_event ''01-01-2024 10:00'' ''/projects/p1/zones/z1/instances/11'' 0.5 3
        ''Licensing Fee'',
      example_event ''01-01-2024 10:00'' ''unknown'' 0.5 4 ''Network Inter Zone Egress'',
      example_event ''02-01-2024 10:00'' ''/projects/p1/zones/z1/instances/11'' 0.5 1
        ''SSD backed PD'']"

text \<open>An event of no utilization and a cost of \<open>2^1023\<close>, a binary64 number.\<close>

definition overflow_event :: raw_event where
  "overflow_event =
     example_event ''01-01-2024 10:00'' ''/projects/p1/zones/z1/instances/11'' 0 (2 ^ 1023)
       ''SSD backed PD''"

definition example_row1 :: agg where
  "example_row1 =
     \<lparr> date = ''2024-01-01'', instance_id = Some ''11'', project_id = Some ''p1'', zone = Some ''z1'',
       cpu_utilization_mean = Fin (1 / 2), cpu_utilization_std = Fin 0,
       cpu_utilization_min = Fin (1 / 2), cpu_utilization_max = Fin (1 / 2),
       memory_used_gb_mean = Fin 1, memory_used_gb_std = Fin 0, memory_used_gb_min = Fin 1,
       memory_used_gb_max = Fin 1, disk_read_bytes_sum = Fin 2, disk_read_bytes_mean = Fin 1,
       disk_write_bytes_sum = Fin 4, disk_write_bytes_mean = Fin 2, ingress_bytes_sum = Fin 6,
       ingress_bytes_mean = Fin 3, egress_bytes_sum = Fin 8, egress_bytes_mean = Fin 4,
       network_total_bytes_sum = Fin 14, network_total_bytes_mean = Fin 7,
       disk_total_bytes_sum = Fin 6, disk_total_bytes_mean = Fin 3, uptime_fraction_mean = Fin 1,
       uptime_fraction_min = Fin 1, uptime_fraction_max = Fin 1, cost_usd_sum = Fin 5,
       cost_usd_mean = Fin (5 / 2), cost_usd_max = Fin 3, cost_per_cpu_mean = Fin (11236526016393453 / 2251799813685248),
       sku_category = ''Other'' \<rparr>"

definition example_row2 :: agg where
  "example_row2 =
     \<lparr> date = ''2024-01-01'', instance_id = None, project_id = None, zone = None,
       cpu_utilization_mean = Fin (1 / 2), cpu_utilization_std = NaN,
       cpu_utilization_min = Fin (1 / 2), cpu_utilization_max = Fin (1 / 2),
       memory_used_gb_mean = Fin 1, memory_used_gb_std = NaN, memory_used_gb_min = Fin 1,
       memory_used_gb_max = Fin 1, disk_read_bytes_sum = Fin 1, disk_read_bytes_mean = Fin 1,
       disk_write_bytes_sum = Fin 2, disk_write_bytes_mean = Fin 2, ingress_bytes_sum = Fin 3,
       ingress_bytes_mean = Fin 3, egress_bytes_sum = Fin 4, egress_bytes_mean = Fin 4,
       network_total_bytes_sum = Fin 7, network_total_bytes_mean = Fin 7,
       disk_total_bytes_sum = Fin 3, disk_total_bytes_mean = Fin 3, uptime_fraction_mean = Fin 1,
       uptime_fraction_min = Fin 1, uptime_fraction_max = Fin 1, cost_usd_sum = Fin 4,
       cost_usd_mean = Fin 4, cost_usd_max = Fin 4, cost_per_cpu_mean = Fin (4494610406557381 / 562949953421312),
       sku_category = ''Network_InterZone'' \<rparr>"

definition example_row3 :: agg where
  "example_row3 =
     \<lparr> date = ''2024-01-02'', instance_id = Some ''11'', project_id = Some ''p1'', zone = Some ''z1'',
       cpu_utilization_mean = Fin (1 / 2), cpu_utilization_std = NaN,
       cpu_utilization_min = Fin (1 / 2), cpu_utilization_max = Fin (1 / 2),
       memory_used_gb_mean = Fin 1, memory_used_gb_std = NaN, memory_used_gb_min = Fin 1,
       memory_used_gb_max = Fin 1, disk_read_bytes_sum = Fin 1, disk_read_bytes_mean = Fin 1,
       disk_write_bytes_sum = Fin 2, disk_write_bytes_mean = Fin 2, ingress_bytes_sum = Fin 3,
       ingress_bytes_mean = Fin 3, egress_bytes_sum = Fin 4, egress_bytes_mean = Fin 4,
       network_total_bytes_sum = Fin 7, network_total_bytes_mean = Fin 7,
       disk_total_bytes_sum = Fin 3, disk_total_bytes_mean = Fin 3, uptime_fraction_mean = Fin 1,
       uptime_fraction_min = Fin 1, uptime_fraction_max = Fin 1, cost_usd_sum = Fin 1,
       cost_usd_mean = Fin 1, cost_usd_max = Fin 1, cost_per_cpu_mean = Fin (4494610406557381 / 2251799813685248),
       sku_category = ''Storage'' \<rparr>"

definition example_table :: "agg list" where
  "example_table = [example_row1, example_row2, example_row3]"

section \<open>Reading the report back\<close>

text \<open>
  The value under a path of keys; the two half means and the percent change that
  \<open>get_trend_direction\<close> computes; the label of an overall entry; and a table row whose
  numeric columns all hold one value, for worked tables.
\<close>

fun dict_path :: "pyval \<Rightarrow> string list \<Rightarrow> pyval option" where
  "dict_path v [] = Some v"
| "dict_path v (k # ks) = (case dict_get v k of None \<Rightarrow> None | Some w \<Rightarrow> dict_path w ks)"

definition first_half_mean :: "pandas \<Rightarrow> agg list \<Rightarrow> (agg \<Rightarrow> fval) \<Rightarrow> fval" where
  "first_half_mean pd df metric =
     (let metric_data = dropna (map metric df)
      in pd_mean pd (take (length metric_data div 2) metric_data))"

definition second_half_mean :: "pandas \<Rightarrow> agg list \<Rightarrow> (agg \<Rightarrow> fval) \<Rightarrow> fval" where
  "second_half_mean pd df metric =
     (let metric_data = dropna (map metric df)
      in pd_mean pd (drop (length metric_data div 2) metric_data))"

definition split_halves_pct :: "pandas \<Rightarrow> agg list \<Rightarrow> (agg \<Rightarrow> fval) \<Rightarrow> fval" where
  "split_halves_pct pd df metric =
     pct_change (first_half_mean pd df metric) (second_half_mean pd df metric)"

definition overall_trend :: "string \<Rightarrow> fval \<Rightarrow> fval \<Rightarrow> pyval option" where
  "overall_trend label first_val last_val =
     dict_path (PDict (overall_metric label first_val last_val)) [label, ''trend'']"

definition flat_row :: "string \<Rightarrow> string \<Rightarrow> fval \<Rightarrow> agg" where
  "flat_row d i v =
     \<lparr> date = d, instance_id = Some i, project_id = Some ''p1'', zone = Some ''z1'',
       cpu_utilization_mean = v, cpu_utilization_std = v, cpu_utilization_min = v,
       cpu_utilization_max = v, memory_used_gb_mean = v, memory_used_gb_std = v,
       memory_used_gb_min = v, memory_used_gb_max = v, disk_read_bytes_sum = v,
       disk_read_bytes_mean = v, disk_write_bytes_sum = v, disk_write_bytes_mean = v,
       ingress_bytes_sum = v, ingress_bytes_mean = v, egress_bytes_sum = v,
       egress_bytes_mean = v, network_total_bytes_sum = v, network_total_bytes_mean = v,
       disk_total_bytes_sum = v, disk_total_bytes_mean = v, uptime_fraction_mean = v,
       uptime_fraction_min = v, uptime_fraction_max = v, cost_usd_sum = v, cost_usd_mean = v,
       cost_usd_max = v, cost_per_cpu_mean = v, sku_category = ''Other'' \<rparr>"

definition two_day_table :: "real \<Rightarrow> real \<Rightarrow> agg list" where
  "two_day_table v w = [flat_row ''2024-01-01'' ''11'' (Fin v), flat_row ''2024-01-02'' ''11'' (Fin w)]"

section \<open>Properties of the SKU classification\<close>

lemma contains_iff: "contains sub s \<longleftrightarrow> (\<exists>before after. s = before @ sub @ after)"
proof (induction s)
  case Nil
  then show ?case by auto
next
  case (Cons c cs)
  show ?case
  proof
    assume "contains sub (c # cs)"
    then consider "prefix sub (c # cs)" | "contains sub cs" by auto
    then show "\<exists>before after. c # cs = before @ sub @ after"
    proof cases
      case 1
      then obtain after where "c # cs = sub @ after" by (auto simp: prefix_def)
      then have "c # cs = [] @ sub @ after" by simp
      then show ?thesis by blast
    next
      case 2
      with Cons.IH obtain before after where "cs = before @ sub @ after" by blast
      then have "c # cs = (c # before) @ sub @ after" by simp
      then show ?thesis by blast
    qed
  next
    assume "\<exists>before after. c # cs = before @ sub @ after"
    then obtain before after where eq: "c # cs = before @ sub @ after" by blast
    show "contains sub (c # cs)"
    proof (cases before)
      case Nil
      with eq have "prefix sub (c # cs)" by (simp add: prefix_def)
      then show ?thesis by simp
    next
      case (Cons b bs)
      with eq have "cs = bs @ sub @ after" by simp
      with Cons.IH have "contains sub cs" by blast
      then show ?thesis by simp
    qed
  qed
qed

lemma char_eq_code: "a = b \<longleftrightarrow> (of_char a :: nat) = of_char b"
  by simp

lemma of_char_less: "(of_char c :: nat) < 256"
  by simp

lemma letter_pairs_codes:
  "letter_pairs = map (\<lambda>n. (char_of n, char_of (n + 32))) [65..<91::nat]"
  by code_simp

lemma letter_pairs_iff:
  "(a, b) \<in> set letter_pairs \<longleftrightarrow>
     65 \<le> (of_char a :: nat) \<and> (of_char a :: nat) \<le> 90 \<and> (of_char b :: nat) = of_char a + 32"
proof
  assume "(a, b) \<in> set letter_pairs"
  then obtain n :: nat where n: "65 \<le> n" "n < 91" and a: "a = char_of n" and b: "b = char_of (n + 32)"
    by (auto simp: letter_pairs_codes)
  from n have "(of_char a :: nat) = n" "(of_char b :: nat) = n + 32" by (simp_all add: a b)
  with n show "65 \<le> (of_char a :: nat) \<and> (of_char a :: nat) \<le> 90 \<and> (of_char b :: nat) = of_char a + 32"
    by simp
next
  assume h: "65 \<le> (of_char a :: nat) \<and> (of_char a :: nat) \<le> 90 \<and> (of_char b :: nat) = of_char a + 32"
  let ?n = "of_char a :: nat"
  have "a = char_of ?n" by simp
  moreover from h have "b = char_of (?n + 32)" by (metis char_of_char)
  ultimately have "(a, b) = (\<lambda>n. (char_of n, char_of (n + 32))) ?n" by simp
  moreover from h have "65 \<le> ?n \<and> ?n < 91" by simp
  then have "?n \<in> set [65..<91]" by (simp only: set_upt atLeastLessThan_iff)
  ultimately show "(a, b) \<in> set letter_pairs" unfolding letter_pairs_codes set_map by blast
qed

lemma of_char_lower_char:
  "(of_char (lower_char c) :: nat) =
     (let n = of_char c
      in if (65 \<le> n \<and> n \<le> 90) \<or> (192 \<le> n \<and> n \<le> 222 \<and> n \<noteq> 215) then n + 32 else n)"
proof -
  have "(of_char c :: nat) < 256" by simp
  then show ?thesis by (auto simp: lower_char_def Let_def)
qed

lemma lower_char_same_letter:
  assumes "w \<in> set ''abcdefghijklmnopqrstuvwxyz ''"
  shows "lower_char c = w \<longleftrightarrow> same_letter c w"
proof -
  from assms have w: "(97 \<le> (of_char w :: nat) \<and> (of_char w :: nat) \<le> 122) \<or> (of_char w :: nat) = 32"
    by auto
  have c: "(of_char c :: nat) < 256" by simp
  have "lower_char c = w \<longleftrightarrow> (of_char (lower_char c) :: nat) = of_char w"
    by (rule char_eq_code)
  also have "\<dots> \<longleftrightarrow> (of_char c :: nat) = of_char w \<or>
      (65 \<le> (of_char c :: nat) \<and> (of_char c :: nat) \<le> 90 \<and> (of_char w :: nat) = of_char c + 32)"
    using w c unfolding of_char_lower_char Let_def by auto
  also have "\<dots> \<longleftrightarrow> same_letter c w"
    using w unfolding same_letter_def letter_pairs_iff char_eq_code [of c w] by auto
  finally show ?thesis .
qed

lemma lower_eq_word:
  "plain_word word \<Longrightarrow> lower mid = word \<longleftrightarrow> list_all2 same_letter mid word"
proof (induction mid arbitrary: word)
  case Nil
  then show ?case by (auto simp: lower_def)
next
  case (Cons c mid)
  show ?case
  proof (cases word)
    case Nil
    then show ?thesis by (simp add: lower_def)
  next
    case (Cons w ws)
    with Cons.prems have "w \<in> set ''abcdefghijklmnopqrstuvwxyz ''" "plain_word ws"
      by (simp_all add: plain_word_def)
    with Cons.IH [of ws] show ?thesis
      using lower_char_same_letter [of w c] by (simp add: Cons lower_def)
  qed
qed

lemma lower_split_occurs:
  assumes "plain_word word"
  shows "(\<exists>before after. lower s = before @ word @ after) \<longleftrightarrow> occurs_in word s"
proof
  assume "\<exists>before after. lower s = before @ word @ after"
  then obtain before after where "map lower_char s = before @ word @ after"
    by (auto simp: lower_def)
  then obtain b r where s1: "s = b @ r" and r: "word @ after = map lower_char r"
    unfolding map_eq_append_conv by blast
  from r obtain mid a where "r = mid @ a" and "map lower_char mid = word"
    unfolding append_eq_map_conv by blast
  with s1 assms show "occurs_in word s"
    unfolding occurs_in_def using lower_eq_word [of word mid] by (auto simp: lower_def)
next
  assume "occurs_in word s"
  then obtain before mid after where s: "s = before @ mid @ after" and "list_all2 same_letter mid word"
    by (auto simp: occurs_in_def)
  with assms have "lower mid = word" by (simp add: lower_eq_word)
  with s have "lower s = lower before @ word @ lower after" by (simp add: lower_def)
  then show "\<exists>before after. lower s = before @ word @ after" by blast
qed

lemma contains_lower_occurs: "plain_word word \<Longrightarrow> contains word (lower s) = occurs_in word s"
  by (simp add: contains_iff lower_split_occurs)

lemma sku_words_plain:
  "plain_word ''vm state''" "plain_word ''ssd''" "plain_word ''network''"
  "plain_word ''inter zone''" "plain_word ''intra zone''" "plain_word ''google services''"
  by (simp_all add: plain_word_def)

text \<open>
  C2. \<open>categorize_sku\<close> is total on strings: every description is mapped to one of the
  six categories, and the category is the one of the first rule, in the priority order
  Storage, Network_InterZone, Network_IntraZone, Network_GoogleServices, Network_Other,
  whose case-insensitive substring test applies, and Other when none does. The tests of
  the rules are stated with the table of letters, not with the program's \<open>lower\<close>.
\<close>

theorem categorize_sku_total_first_match:
  "categorize_sku s \<in> sku_categories \<and> categorize_sku s = sku_rules_spec s"
  by (simp add: categorize_sku_def sku_rules_spec_def sku_categories_def Let_def
      contains_lower_occurs sku_words_plain)

text \<open>The rules at work on descriptions in three spellings.\<close>

lemma categorize_sku_examples:
  "categorize_sku ''SSD backed PD Capacity'' = ''Storage''"
  "categorize_sku ''ssd backed pd capacity'' = ''Storage''"
  "categorize_sku ''NETWORK Inter Zone Egress'' = ''Network_InterZone''"
  "categorize_sku ''Network Traffic Egress VM-VM'' = ''Network_Other''"
  "categorize_sku ''N1 Predefined Instance Core'' = ''Other''"
  by code_simp+

section \<open>Rounding to binary64\<close>

lemma round_half_even_bounds:
  "m - 1 / 2 \<le> of_int (round_half_even m)" "of_int (round_half_even m) \<le> m + 1 / 2"
  unfolding round_half_even_def Let_def by (auto; linarith)+

lemma round_half_even_of_int [simp]: "round_half_even (of_int k) = k"
  by (simp add: round_half_even_def)

lemma round_half_even_ge_int: "of_int k \<le> m \<Longrightarrow> k \<le> round_half_even m"
proof -
  assume "of_int k \<le> m"
  then have "k \<le> \<lfloor>m\<rfloor>" by (simp add: le_floor_iff)
  then show ?thesis by (auto simp: round_half_even_def Let_def)
qed

lemma round_half_even_le_int: "m \<le> of_int k \<Longrightarrow> round_half_even m \<le> k"
proof -
  assume a: "m \<le> of_int k"
  show ?thesis
  proof (cases "m = of_int k")
    case True
    then show ?thesis by simp
  next
    case False
    with a have "m < of_int k" by simp
    then have "\<lfloor>m\<rfloor> < k" by (simp add: floor_less_iff)
    then show ?thesis by (auto simp: round_half_even_def Let_def)
  qed
qed

lemma floor_log2_bounds:
  assumes "x \<noteq> 0"
  shows "2 powi \<lfloor>log 2 \<bar>x\<bar>\<rfloor> \<le> \<bar>x\<bar>" and "\<bar>x\<bar> < 2 powi (\<lfloor>log 2 \<bar>x\<bar>\<rfloor> + 1)"
proof -
  from assms have p: "\<bar>x\<bar> > 0" by simp
  have "(2::real) powr (of_int \<lfloor>log 2 \<bar>x\<bar>\<rfloor>) \<le> \<bar>x\<bar> \<and> \<bar>x\<bar> < 2 powr (of_int \<lfloor>log 2 \<bar>x\<bar>\<rfloor> + 1)"
    using floor_log_eq_powr_iff [OF p, of 2 "\<lfloor>log 2 \<bar>x\<bar>\<rfloor>"] by simp
  moreover have "(2::real) powr (of_int \<lfloor>log 2 \<bar>x\<bar>\<rfloor>) = 2 powi \<lfloor>log 2 \<bar>x\<bar>\<rfloor>"
    by (simp add: powr_real_of_int')
  moreover have "(2::real) powr (of_int \<lfloor>log 2 \<bar>x\<bar>\<rfloor> + 1) = 2 powi (\<lfloor>log 2 \<bar>x\<bar>\<rfloor> + 1)"
    using powr_real_of_int' [of 2 "\<lfloor>log 2 \<bar>x\<bar>\<rfloor> + 1"] by simp
  ultimately show "2 powi \<lfloor>log 2 \<bar>x\<bar>\<rfloor> \<le> \<bar>x\<bar>" and "\<bar>x\<bar> < 2 powi (\<lfloor>log 2 \<bar>x\<bar>\<rfloor> + 1)"
    by simp_all
qed

lemma floor_log2_eq:
  assumes "2 powi e \<le> \<bar>x\<bar>" and "\<bar>x\<bar> < 2 powi (e + 1)"
  shows "\<lfloor>log 2 \<bar>x\<bar>\<rfloor> = e"
proof -
  have "(0::real) < 2 powi e" by simp
  with assms(1) have p: "\<bar>x\<bar> > 0" by linarith
  have "(2::real) powr (of_int e) = 2 powi e" by (simp add: powr_real_of_int')
  moreover have "(2::real) powr (of_int e + 1) = 2 powi (e + 1)"
    using powr_real_of_int' [of 2 "e + 1"] by simp
  ultimately show ?thesis
    using floor_log_eq_powr_iff [OF p, of 2 e] assms by simp
qed

lemma f64_ulp_normal:
  assumes "2 powi e \<le> \<bar>x\<bar>" and "\<bar>x\<bar> < 2 powi (e + 1)" and "- 1022 \<le> e"
  shows "f64_ulp x = 2 powi (e - 52)"
  using floor_log2_eq [OF assms(1,2)] assms(3) by (simp add: f64_ulp_def f64_exponent_def)

lemma f64_ulp_subnormal:
  assumes "x \<noteq> 0" and "\<bar>x\<bar> < 2 powi (- 1022)"
  shows "f64_ulp x = 2 powi (- 1074)"
proof -
  have "\<lfloor>log 2 \<bar>x\<bar>\<rfloor> < - 1022"
  proof (rule ccontr)
    assume "\<not> \<lfloor>log 2 \<bar>x\<bar>\<rfloor> < - 1022"
    then have "(2::real) powi (- 1022) \<le> 2 powi \<lfloor>log 2 \<bar>x\<bar>\<rfloor>"
      by (intro power_int_increasing) auto
    also have "\<dots> \<le> \<bar>x\<bar>" using assms(1) by (rule floor_log2_bounds)
    finally show False using assms(2) by simp
  qed
  then show ?thesis by (simp add: f64_ulp_def f64_exponent_def)
qed

lemma f64_ulp_pos [simp]: "0 < f64_ulp x"
  by (simp add: f64_ulp_def)

lemma f64_ulp_nonneg [simp]: "0 \<le> f64_ulp x"
  by (simp add: f64_ulp_def)

lemma f64_ulp_neq0 [simp]: "f64_ulp x \<noteq> 0"
  by (simp add: f64_ulp_def)

text \<open>The rounded value lies within half a unit in the last place of the exact one.\<close>

lemma round64_candidate_bounds:
  "x - f64_ulp x / 2 \<le> of_int (round_half_even (x / f64_ulp x)) * f64_ulp x"
  "of_int (round_half_even (x / f64_ulp x)) * f64_ulp x \<le> x + f64_ulp x / 2"
proof -
  let ?q = "f64_ulp x"
  let ?r = "real_of_int (round_half_even (x / ?q))"
  have q: "0 < ?q" by simp
  have nz: "?q \<noteq> 0" by simp
  have e1: "(x / ?q - 1 / 2) * ?q = x - ?q / 2" and e2: "(x / ?q + 1 / 2) * ?q = x + ?q / 2"
    using nz by (simp_all add: field_simps)
  have "x / ?q - 1 / 2 \<le> ?r" by (rule round_half_even_bounds)
  then have "(x / ?q - 1 / 2) * ?q \<le> ?r * ?q" using q by (simp add: mult_right_mono)
  then show "x - ?q / 2 \<le> ?r * ?q" by (simp only: e1)
  have "?r \<le> x / ?q + 1 / 2" by (rule round_half_even_bounds)
  then have "?r * ?q \<le> (x / ?q + 1 / 2) * ?q" using q by (simp add: mult_right_mono)
  then show "?r * ?q \<le> x + ?q / 2" by (simp only: e2)
qed

lemma f64_ulp_le:
  assumes "x \<noteq> 0"
  shows "f64_ulp x \<le> max (\<bar>x\<bar> / 2 ^ 52) (2 powi (- 1074))"
proof (cases "\<lfloor>log 2 \<bar>x\<bar>\<rfloor> \<ge> - 1022")
  case True
  then have "f64_ulp x = 2 powi (\<lfloor>log 2 \<bar>x\<bar>\<rfloor> - 52)"
    by (simp add: f64_ulp_def f64_exponent_def)
  also have "\<dots> = 2 powi \<lfloor>log 2 \<bar>x\<bar>\<rfloor> / 2 ^ 52"
    by (simp add: power_int_diff)
  also have "\<dots> \<le> \<bar>x\<bar> / 2 ^ 52"
    using floor_log2_bounds(1) [OF assms] by (simp add: divide_right_mono)
  finally show ?thesis by simp
next
  case False
  then have "f64_ulp x = 2 powi (- 1074)" by (simp add: f64_ulp_def f64_exponent_def)
  then show ?thesis by simp
qed

lemma round64_overflow:
  assumes "2 ^ 1024 \<le> x"
  shows "round64 x = PInf"
proof -
  from assms have x: "x \<noteq> 0" "\<bar>x\<bar> = x" "0 < x"
    by (smt (verit) zero_less_power)+
  let ?e = "\<lfloor>log 2 \<bar>x\<bar>\<rfloor>"
  have e: "1024 \<le> ?e"
  proof (rule ccontr)
    assume "\<not> 1024 \<le> ?e"
    then have "?e + 1 \<le> 1024" by simp
    then have "(2::real) powi (?e + 1) \<le> 2 powi 1024" by (intro power_int_increasing) auto
    with floor_log2_bounds(2) [OF x(1)] have "\<bar>x\<bar> < 2 powi 1024" by linarith
    with assms x(2) show False by simp
  qed
  then have q: "f64_ulp x = 2 powi (?e - 52)" by (simp add: f64_ulp_def f64_exponent_def)
  have "(2::real) ^ 52 * 2 powi (?e - 52) = 2 powi ?e"
    using power_int_add [of "2::real" 52 "?e - 52"] by simp
  with floor_log2_bounds(1) [OF x(1)] have "2 ^ 52 * f64_ulp x \<le> x" by (simp add: q x(2))
  then have "of_int (2 ^ 52) \<le> x / f64_ulp x" by (simp add: pos_le_divide_eq)
  then have "2 ^ 52 \<le> round_half_even (x / f64_ulp x)" by (rule round_half_even_ge_int)
  then have "(2::real) ^ 52 \<le> of_int (round_half_even (x / f64_ulp x))"
    by (metis of_int_le_iff of_int_numeral of_int_power)
  then have "2 ^ 52 * f64_ulp x \<le> of_int (round_half_even (x / f64_ulp x)) * f64_ulp x"
    by (intro mult_right_mono) auto
  moreover have "(2::real) ^ 1024 \<le> 2 ^ 52 * f64_ulp x"
  proof -
    have "(2::real) powi 1024 \<le> 2 powi ?e" using e by (intro power_int_increasing) auto
    also have "\<dots> = 2 ^ 52 * f64_ulp x"
      using power_int_add [of "2::real" 52 "?e - 52"] by (simp add: q)
    finally show ?thesis by simp
  qed
  ultimately have "2 ^ 1024 \<le> of_int (round_half_even (x / f64_ulp x)) * f64_ulp x" by linarith
  with x(1) show ?thesis by (simp add: round64_def Let_def)
qed

lemma round64_finite:
  assumes "\<bar>x\<bar> \<le> 2 ^ 1023"
  shows "\<exists>y. round64 x = Fin y \<and> \<bar>y - x\<bar> \<le> f64_ulp x / 2"
proof (cases "x = 0")
  case True
  then show ?thesis by (simp add: round64_def)
next
  case False
  let ?y = "of_int (round_half_even (x / f64_ulp x)) * f64_ulp x"
  have b: "\<bar>?y - x\<bar> \<le> f64_ulp x / 2"
    using round64_candidate_bounds [of x] by arith
  have "f64_ulp x \<le> max (\<bar>x\<bar> / 2 ^ 52) (2 powi (- 1074))" using False by (rule f64_ulp_le)
  also have "\<dots> \<le> 2 ^ 1023"
  proof -
    have "\<bar>x\<bar> / 2 ^ 52 \<le> \<bar>x\<bar>" by (simp add: field_simps)
    moreover have "(2::real) powi (- 1074) \<le> 2 powi 1023" by (intro power_int_increasing) auto
    ultimately show ?thesis using assms by simp
  qed
  finally have "f64_ulp x / 2 \<le> 2 ^ 1022" by simp
  with b assms have "\<bar>?y\<bar> \<le> 2 ^ 1023 + 2 ^ 1022" by linarith
  moreover have "(2::real) ^ 1023 + 2 ^ 1022 < 2 ^ 1024" by simp
  ultimately have "\<not> 2 ^ 1024 \<le> ?y" "\<not> ?y \<le> - (2 ^ 1024)" by linarith+
  with False b show ?thesis by (simp add: round64_def Let_def)
qed

lemma round64_positive:
  assumes "2 powi (- 1022) \<le> x"
  shows "round64 x = PInf \<or> (\<exists>y. round64 x = Fin y \<and> x / 2 \<le> y)"
proof -
  have "(0::real) < 2 powi (- 1022)" by simp
  with assms have x: "x \<noteq> 0" "\<bar>x\<bar> = x" "0 < x" by linarith+
  let ?y = "of_int (round_half_even (x / f64_ulp x)) * f64_ulp x"
  have "f64_ulp x \<le> max (\<bar>x\<bar> / 2 ^ 52) (2 powi (- 1074))" using x(1) by (rule f64_ulp_le)
  moreover have "(2::real) powi (- 1074) \<le> x / 2 ^ 52"
  proof -
    have "(2::real) powi (- 1074) = 2 powi (- 1022) / 2 ^ 52"
      using power_int_diff [of "2::real" "- 1022" 52] by simp
    also have "\<dots> \<le> x / 2 ^ 52" using assms by (simp add: divide_right_mono)
    finally show ?thesis .
  qed
  ultimately have "f64_ulp x \<le> x / 2 ^ 52" using x(2) by simp
  also have "\<dots> \<le> x" using x(3) by (simp add: field_simps)
  finally have "x - f64_ulp x / 2 \<ge> x / 2" by simp
  with round64_candidate_bounds(1) [of x] have y: "x / 2 \<le> ?y" by linarith
  with x(3) have "\<not> ?y \<le> - (2 ^ 1024)" by (smt (verit) zero_less_power half_gt_zero)
  with y x(1) show ?thesis by (auto simp: round64_def Let_def)
qed

lemma round64_value:
  assumes "\<bar>x\<bar> \<le> 2 ^ 1023"
  shows "round64 x = Fin (of_int (round_half_even (x / f64_ulp x)) * f64_ulp x)"
proof (cases "x = 0")
  case True
  then show ?thesis by (simp add: round64_def round_half_even_def)
next
  case False
  let ?y = "of_int (round_half_even (x / f64_ulp x)) * f64_ulp x"
  from round64_finite [OF assms] obtain y where y: "round64 x = Fin y" by blast
  with False show ?thesis by (auto simp: round64_def Let_def split: if_splits)
qed

lemma round64_normal:
  assumes "2 powi e \<le> \<bar>x\<bar>" and "\<bar>x\<bar> < 2 powi (e + 1)" and "- 1022 \<le> e" and "e \<le> 1022"
  shows "round64 x = Fin (of_int (round_half_even (x / 2 powi (e - 52))) * 2 powi (e - 52))"
proof -
  from assms(4) have "(2::real) powi (e + 1) \<le> 2 powi 1023" by (intro power_int_increasing) auto
  with assms(2) have "\<bar>x\<bar> \<le> 2 ^ 1023" by simp
  then show ?thesis by (simp add: round64_value f64_ulp_normal [OF assms(1,2,3)])
qed


section \<open>Lists, sorting and dates\<close>

lemma traverse_Inr: "traverse f xs = Inr ys \<Longrightarrow> list_all2 (\<lambda>x y. f x = Inr y) xs ys"
  by (induction xs arbitrary: ys) (auto split: sum.splits)

lemma traverse_total: "(\<And>x. x \<in> set xs \<Longrightarrow> \<exists>y. f x = Inr y) \<Longrightarrow> \<exists>ys. traverse f xs = Inr ys"
  by (induction xs) (fastforce split: sum.splits)+

lemma mset_insert_by: "mset (insert_by le x ys) = add_mset x (mset ys)"
  by (induction ys) auto

lemma mset_sort_by: "mset (sort_by le xs) = mset xs"
  by (induction xs) (auto simp: sort_by_def mset_insert_by)

lemma set_sort_by: "set (sort_by le xs) = set xs"
  using mset_sort_by [of le xs] by (metis set_mset_mset)

lemma distinct_map_sort_by: "distinct (map f (sort_by le xs)) = distinct (map f xs)"
proof -
  have "mset (map f (sort_by le xs)) = mset (map f xs)"
    by (simp add: mset_sort_by)
  then show ?thesis by (rule mset_eq_imp_distinct_iff)
qed

lemma sum_list_map_sort_by: "sum_list (map f (sort_by le xs)) = sum_list (map (f :: 'a \<Rightarrow> real) xs)"
proof -
  have "mset (map f (sort_by le xs)) = mset (map f xs)"
    by (simp add: mset_sort_by)
  then show ?thesis by (metis sum_mset_sum_list)
qed

lemma set_unique: "set (unique xs) = set xs"
  by (induction xs) auto

lemma distinct_unique: "distinct (unique xs)"
  by (induction xs) (auto simp: set_unique)

lemma digit_inj: "a < 10 \<Longrightarrow> b < 10 \<Longrightarrow> digit a = digit b \<Longrightarrow> a = b"
proof -
  assume a: "a < 10" and b: "b < 10" and e: "digit a = digit b"
  have d: "distinct ''0123456789''" by simp
  from a b e have "''0123456789'' ! a = ''0123456789'' ! b" by (simp add: digit_def)
  with d a b show "a = b" by (simp add: nth_eq_iff_index_eq)
qed

lemma digit_eq_iff: "digit a = digit b \<longleftrightarrow> a mod 10 = b mod 10"
proof
  assume "digit a = digit b"
  then have "digit (a mod 10) = digit (b mod 10)" by (simp add: digit_def)
  then show "a mod 10 = b mod 10" by (intro digit_inj) auto
next
  assume "a mod 10 = b mod 10"
  then show "digit a = digit b" by (simp add: digit_def)
qed

lemma div_mod_10_eq: "(a::nat) div 10 = b div 10 \<Longrightarrow> a mod 10 = b mod 10 \<Longrightarrow> a = b"
  by (metis div_mult_mod_eq)

lemma pad2_inj:
  assumes "a < 100" "b < 100" "pad2 a = pad2 b"
  shows "a = b"
proof -
  from assms(3) have m1: "(a div 10) mod 10 = (b div 10) mod 10" and m0: "a mod 10 = b mod 10"
    by (simp_all add: pad2_def digit_eq_iff)
  from assms(1,2) have "a div 10 < 10" "b div 10 < 10" by simp_all
  with m1 have "a div 10 = b div 10" by simp
  then show ?thesis using m0 by (rule div_mod_10_eq)
qed

lemma pad4_inj:
  assumes "a < 10000" "b < 10000" "pad4 a = pad4 b"
  shows "a = b"
proof -
  from assms(3) have m3: "(a div 1000) mod 10 = (b div 1000) mod 10"
    and m2: "(a div 100) mod 10 = (b div 100) mod 10"
    and m1: "(a div 10) mod 10 = (b div 10) mod 10"
    and m0: "a mod 10 = b mod 10"
    by (simp_all add: pad4_def digit_eq_iff)
  from assms(1,2) have "a div 1000 < 10" "b div 1000 < 10" by simp_all
  with m3 have e3: "a div 1000 = b div 1000" by simp
  have "a div 100 div 10 = a div 1000" "b div 100 div 10 = b div 1000"
    by (simp_all add: div_mult2_eq [symmetric])
  with e3 have "a div 100 div 10 = b div 100 div 10" by simp
  from this m2 have e2: "a div 100 = b div 100" by (rule div_mod_10_eq)
  have "a div 10 div 10 = a div 100" "b div 10 div 10 = b div 100"
    by (simp_all add: div_mult2_eq [symmetric])
  with e2 have "a div 10 div 10 = b div 10 div 10" by simp
  from this m1 have "a div 10 = b div 10" by (rule div_mod_10_eq)
  from this m0 show ?thesis by (rule div_mod_10_eq)
qed

lemma date_str_inj:
  assumes "valid_date x" "valid_date y" "date_str x = date_str y"
  shows "x = y"
proof -
  obtain y1 m1 d1 where x: "x = (y1, m1, d1)" by (cases x)
  obtain y2 m2 d2 where y: "y = (y2, m2, d2)" by (cases y)
  from assms(3) have "pad4 y1 = pad4 y2" "pad2 m1 = pad2 m2" "pad2 d1 = pad2 d2"
    by (simp_all add: x y pad4_def pad2_def)
  with assms(1,2) show ?thesis
    by (simp add: x y valid_date_def pad4_inj pad2_inj)
qed

lemma valid_dt_date: "valid_datetime t \<Longrightarrow> valid_date (dt_date t)"
  by (simp add: valid_datetime_def valid_date_def dt_date_def)

section \<open>The structure of the preprocessor's result\<close>

lemma to_datetime_valid: "to_datetime P s = Inr t \<Longrightarrow> valid_datetime t"
  by (auto simp: to_datetime_def split: option.splits if_splits)

lemma rows_events:
  "list_all2 R1 df ts \<Longrightarrow> list_all2 R2 df cats \<Longrightarrow> map event (map mk_row (zip df (zip ts cats))) = df"
  by (induction df arbitrary: ts cats) (auto simp: list_all2_Cons1 mk_row_def)

lemma rows_ok:
  assumes ts: "list_all2 (\<lambda>e t. to_datetime P (timestamp e) = Inr t) df ts"
    and cats: "list_all2 (\<lambda>e c. categorize e = Inr c) df cats"
    and r: "r \<in> set (map mk_row (zip df (zip ts cats)))"
  shows "row_ok P r"
proof -
  from ts have "length df = length ts" by (rule list_all2_lengthD)
  moreover from cats have "length df = length cats" by (rule list_all2_lengthD)
  ultimately have len: "length ts = length df" "length cats = length df" by simp_all
  from r obtain i where i: "i < length df" and ri: "r = mk_row (df ! i, ts ! i, cats ! i)"
    using len by (auto simp: in_set_conv_nth)
  from ts i have "to_datetime P (timestamp (df ! i)) = Inr (ts ! i)"
    by (rule list_all2_nthD)
  moreover from cats i have "categorize (df ! i) = Inr (cats ! i)"
    by (rule list_all2_nthD)
  ultimately show ?thesis by (auto simp: row_ok_def ri mk_row_def)
qed

lemma row_ok_key:
  assumes "row_ok P r"
  shows "event_key P (event r) = Some (key_str (row_key r)) \<and> valid_date (row_date r)"
proof -
  from assms obtain t where t: "to_datetime P (timestamp (event r)) = Inr t"
    and d: "row_date r = dt_date t" by (auto simp: row_ok_def)
  from t have "valid_date (dt_date t)" by (intro valid_dt_date to_datetime_valid)
  with t d show ?thesis by (simp add: event_key_def row_key_def)
qed

lemma key_str_inj:
  "valid_date (fst k) \<Longrightarrow> valid_date (fst k') \<Longrightarrow> key_str k = key_str k' \<Longrightarrow> k = k'"
  by (cases k; cases k') (auto dest: date_str_inj)

lemma list_all2_map_eq:
  "list_all2 R xs ys \<Longrightarrow> (\<And>x y. x \<in> set xs \<Longrightarrow> R x y \<Longrightarrow> f y = g x) \<Longrightarrow> map f ys = map g xs"
  by (induction rule: list_all2_induct) auto

lemma agg_group_key: "agg_group (k, rs) = Inr a \<Longrightarrow> agg_key a = key_str k"
  by (cases k) (auto simp: agg_key_def Let_def split: sum.splits)

lemma agg_group_cost:
  "agg_group (k, rs) = Inr a \<Longrightarrow> cost_usd_sum a = s_sum (map (\<lambda>e. num (cost_usd e)) (map event rs))"
  by (cases k) (auto simp: Let_def split: sum.splits)

lemma agg_group_category:
  "agg_group (k, rs) = Inr a \<Longrightarrow> sku_category_agg (map row_sku_category rs) = Inr (sku_category a)"
  by (cases k) (auto simp: Let_def split: sum.splits)

lemma agg_group_total: "rs \<noteq> [] \<Longrightarrow> \<exists>a. agg_group (k, rs) = Inr a"
  by (cases k; cases rs) (auto simp: Let_def sku_category_agg_def split: sum.splits)

lemma groupby_nonempty: "(k, rs) \<in> set (groupby key le rows) \<Longrightarrow> rs = filter (\<lambda>r. key r = k) rows \<and> k \<in> key ` set rows \<and> rs \<noteq> []"
  by (auto simp: groupby_def set_sort_by set_unique filter_empty_conv)

lemma groupby_keys: "map fst (groupby key le rows) = sort_by le (unique (map key rows))"
  by (simp add: groupby_def comp_def)

lemma traverse_groups_total: "\<exists>aggs. traverse agg_group (groupby key le rows) = Inr aggs"
proof (rule traverse_total)
  fix g assume g: "g \<in> set (groupby key le rows)"
  obtain k rs where "g = (k, rs)" by (cases g)
  with g have "rs \<noteq> []" by (auto dest: groupby_nonempty)
  then show "\<exists>y. agg_group g = Inr y" unfolding \<open>g = (k, rs)\<close> by (rule agg_group_total)
qed

lemma list_all2_right: "list_all2 R xs ys \<Longrightarrow> y \<in> set ys \<Longrightarrow> \<exists>x\<in>set xs. R x y"
  by (induction rule: list_all2_induct) auto

lemma list_all2_left: "list_all2 R xs ys \<Longrightarrow> x \<in> set xs \<Longrightarrow> \<exists>y\<in>set ys. R x y"
  by (induction rule: list_all2_induct) auto

lemma preprocess_structure:
  assumes "preprocess_vm_data P df = Inr daily"
  shows "\<exists>rows aggs. map event rows = df \<and> (\<forall>r\<in>set rows. row_ok P r) \<and>
    list_all2 (\<lambda>g a. agg_group g = Inr a) (groupby row_key key_le rows) aggs \<and>
    daily = sort_by date_instance_le aggs"
proof -
  from assms obtain ts cats aggs where
    ts: "traverse (\<lambda>e. to_datetime P (timestamp e)) df = Inr ts"
    and cats: "traverse categorize df = Inr cats"
    and aggs: "traverse agg_group (groupby row_key key_le (map mk_row (zip df (zip ts cats)))) = Inr aggs"
    and daily: "daily = sort_by date_instance_le aggs"
    by (auto simp: preprocess_vm_data_def split: sum.splits)
  let ?rows = "map mk_row (zip df (zip ts cats))"
  have l1: "list_all2 (\<lambda>e t. to_datetime P (timestamp e) = Inr t) df ts"
    using ts by (rule traverse_Inr)
  have l2: "list_all2 (\<lambda>e c. categorize e = Inr c) df cats"
    using cats by (rule traverse_Inr)
  have "map event ?rows = df" using l1 l2 by (rule rows_events)
  moreover have "\<forall>r\<in>set ?rows. row_ok P r" using l1 l2 by (blast intro: rows_ok)
  moreover have "list_all2 (\<lambda>g a. agg_group g = Inr a) (groupby row_key key_le ?rows) aggs"
    using aggs by (rule traverse_Inr)
  ultimately show ?thesis using daily by blast
qed

lemma preprocess_total:
  assumes "\<And>e. e \<in> set df \<Longrightarrow> \<exists>t. to_datetime P (timestamp e) = Inr t"
    and "\<And>e. e \<in> set df \<Longrightarrow> sku_description e \<noteq> None"
  shows "\<exists>daily. preprocess_vm_data P df = Inr daily"
proof -
  from assms(1) obtain ts where ts: "traverse (\<lambda>e. to_datetime P (timestamp e)) df = Inr ts"
    using traverse_total [of df "\<lambda>e. to_datetime P (timestamp e)"] by blast
  have "\<And>e. e \<in> set df \<Longrightarrow> \<exists>c. categorize e = Inr c"
    using assms(2) by (auto simp: categorize_def split: option.splits)
  then obtain cats where cats: "traverse categorize df = Inr cats"
    using traverse_total [of df categorize] by blast
  obtain aggs where
    "traverse agg_group (groupby row_key key_le (map mk_row (zip df (zip ts cats)))) = Inr aggs"
    using traverse_groups_total by blast
  with ts cats show ?thesis by (simp add: preprocess_vm_data_def)
qed

lemma rows_keys_inj: 
  assumes "\<And>r. r \<in> set rows \<Longrightarrow> row_ok P r"
  shows "inj_on key_str (row_key ` set rows)"
proof (rule inj_onI)
  fix k k' assume k: "k \<in> row_key ` set rows" and k': "k' \<in> row_key ` set rows"
    and eq: "key_str k = key_str k'"
  have v: "valid_date (fst (row_key r))" if "r \<in> set rows" for r
  proof -
    from that have "valid_date (row_date r)" using assms row_ok_key by blast
    then show ?thesis by (simp add: row_key_def)
  qed
  from k v have "valid_date (fst k)" by auto
  moreover from k' v have "valid_date (fst k')" by auto
  ultimately show "k = k'" using eq by (rule key_str_inj)
qed

lemma aggs_keys:
  assumes "list_all2 (\<lambda>g a. agg_group g = Inr a) (groupby row_key key_le rows) aggs"
  shows "map agg_key aggs = map key_str (sort_by key_le (unique (map row_key rows)))"
proof -
  have "map agg_key aggs = map (\<lambda>g. key_str (fst g)) (groupby row_key key_le rows)"
    using assms by (rule list_all2_map_eq) (auto dest: agg_group_key)
  also have "\<dots> = map key_str (map fst (groupby row_key key_le rows))" by simp
  finally show ?thesis by (simp only: groupby_keys)
qed

lemma preprocess_distinct_keys:
  assumes "preprocess_vm_data P df = Inr daily"
  shows "distinct (map agg_key daily)"
proof -
  from assms obtain rows aggs where ev: "map event rows = df" and ok: "\<And>r. r \<in> set rows \<Longrightarrow> row_ok P r"
    and aggs: "list_all2 (\<lambda>g a. agg_group g = Inr a) (groupby row_key key_le rows) aggs"
    and daily: "daily = sort_by date_instance_le aggs"
    using preprocess_structure by blast
  let ?ks = "sort_by key_le (unique (map row_key rows))"
  have "distinct (map (\<lambda>k. k) ?ks)"
    by (simp only: distinct_map_sort_by) (simp add: distinct_unique)
  then have d: "distinct ?ks" by simp
  have s: "set ?ks = row_key ` set rows" by (simp add: set_sort_by set_unique)
  have "distinct (map key_str ?ks)"
    using d rows_keys_inj [OF ok] by (simp add: distinct_map s)
  then have "distinct (map agg_key aggs)" by (simp only: aggs_keys [OF aggs])
  then show ?thesis by (simp only: daily distinct_map_sort_by)
qed

text \<open>Every row of the table is the aggregate of exactly the events that carry its key.\<close>

lemma preprocess_group:
  assumes "preprocess_vm_data P df = Inr daily" and "a \<in> set daily"
  obtains k rs where "agg_group (k, rs) = Inr a" and "map event rs = group_events P df a"
    and "rs \<noteq> []" and "\<And>r. r \<in> set rs \<Longrightarrow> row_ok P r"
proof -
  from assms(1) obtain rows aggs where ev: "map event rows = df"
    and ok: "\<And>r. r \<in> set rows \<Longrightarrow> row_ok P r"
    and aggs: "list_all2 (\<lambda>g a. agg_group g = Inr a) (groupby row_key key_le rows) aggs"
    and daily: "daily = sort_by date_instance_le aggs"
    using preprocess_structure by blast
  from assms(2) have "a \<in> set aggs" by (simp add: daily set_sort_by)
  with aggs obtain g where g: "g \<in> set (groupby row_key key_le rows)" and ga: "agg_group g = Inr a"
    by (blast dest: list_all2_right)
  obtain k rs where krs: "g = (k, rs)" by (cases g)
  from g krs have rs: "rs = filter (\<lambda>r. row_key r = k) rows" and k: "k \<in> row_key ` set rows"
    and ne: "rs \<noteq> []" by (auto dest: groupby_nonempty)
  from ga krs have key: "agg_key a = key_str k" by (auto dest: agg_group_key)
  have "\<And>r. r \<in> set rows \<Longrightarrow> (event_key P (event r) = Some (agg_key a)) = (row_key r = k)"
  proof -
    fix r assume r: "r \<in> set rows"
    then have "event_key P (event r) = Some (key_str (row_key r))"
      using ok row_ok_key by blast
    moreover have "(key_str (row_key r) = key_str k) = (row_key r = k)"
      using rows_keys_inj [OF ok] r k by (auto dest: inj_onD)
    ultimately show "(event_key P (event r) = Some (agg_key a)) = (row_key r = k)"
      by (simp add: key)
  qed
  then have "filter (\<lambda>r. event_key P (event r) = Some (agg_key a)) rows = rs"
    unfolding rs by (intro filter_cong) auto
  then have "map event rs = group_events P df a"
    by (simp add: group_events_def ev [symmetric] filter_map comp_def)
  moreover have "\<And>r. r \<in> set rs \<Longrightarrow> row_ok P r" using ok rs by simp
  ultimately show thesis using ga krs ne that by blast
qed

lemma preprocess_covers:
  assumes "preprocess_vm_data P df = Inr daily" and "e \<in> set df"
  shows "\<exists>a\<in>set daily. event_key P e = Some (agg_key a)"
proof -
  from assms(1) obtain rows aggs where ev: "map event rows = df"
    and ok: "\<And>r. r \<in> set rows \<Longrightarrow> row_ok P r"
    and aggs: "list_all2 (\<lambda>g a. agg_group g = Inr a) (groupby row_key key_le rows) aggs"
    and daily: "daily = sort_by date_instance_le aggs"
    using preprocess_structure by blast
  from assms(2) ev obtain r where r: "r \<in> set rows" and er: "event r = e" by auto
  let ?g = "(row_key r, filter (\<lambda>r'. row_key r' = row_key r) rows)"
  from r have "?g \<in> set (groupby row_key key_le rows)"
    by (auto simp: groupby_def set_sort_by set_unique)
  with aggs obtain a where a: "a \<in> set aggs" and ga: "agg_group ?g = Inr a"
    by (blast dest: list_all2_left)
  from ga have "agg_key a = key_str (row_key r)" by (rule agg_group_key)
  moreover from r have "event_key P (event r) = Some (key_str (row_key r))"
    using ok row_ok_key by blast
  ultimately have "event_key P e = Some (agg_key a)" by (simp add: er)
  with a show ?thesis by (auto simp: daily set_sort_by)
qed

section \<open>The worked batch, evaluated\<close>

lemma example_categories:
  "categorize_sku ''SSD backed PD'' = ''Storage''"
  "categorize_sku ''Licensing Fee'' = ''Other''"
  "categorize_sku ''Network Inter Zone Egress'' = ''Network_InterZone''"
  by code_simp+

lemma example_denominator:
  "f64_add (Fin (1 / 2)) (Fin f64_0_001) = Fin (4512606826625237 / 9007199254740992)"
  using round64_normal [of "- 1" "1 / 2 + f64_0_001"]
  by (simp add: f64_add_def f64_0_001_def round_half_even_def)

lemma example_quotients:
  "f64_div (Fin 1) (Fin (4512606826625237 / 9007199254740992))
     = Fin (4494610406557381 / 2251799813685248)"
  "f64_div (Fin 2) (Fin (4512606826625237 / 9007199254740992))
     = Fin (4494610406557381 / 1125899906842624)"
  "f64_div (Fin 3) (Fin (4512606826625237 / 9007199254740992))
     = Fin (842739451229509 / 140737488355328)"
  "f64_div (Fin 4) (Fin (4512606826625237 / 9007199254740992))
     = Fin (4494610406557381 / 562949953421312)"
  using round64_normal [of 0 "1 / (4512606826625237 / 9007199254740992)"]
    round64_normal [of 1 "2 / (4512606826625237 / 9007199254740992)"]
    round64_normal [of 2 "3 / (4512606826625237 / 9007199254740992)"]
    round64_normal [of 2 "4 / (4512606826625237 / 9007199254740992)"]
  by (simp_all add: f64_div_def round_half_even_def)

lemma example_cost_per_cpu:
  assumes "cpu_utilization e = Some (1 / 2)"
  shows "cost_usd e = Some 1 \<Longrightarrow> cost_per_cpu e = Fin (4494610406557381 / 2251799813685248)"
    and "cost_usd e = Some 2 \<Longrightarrow> cost_per_cpu e = Fin (4494610406557381 / 1125899906842624)"
    and "cost_usd e = Some 3 \<Longrightarrow> cost_per_cpu e = Fin (842739451229509 / 140737488355328)"
    and "cost_usd e = Some 4 \<Longrightarrow> cost_per_cpu e = Fin (4494610406557381 / 562949953421312)"
  using assms by (simp_all add: cost_per_cpu_def example_denominator example_quotients)

lemmas preprocess_eval = preprocess_vm_data_def to_datetime_def valid_datetime_def categorize_def
  mk_row_def groupby_def row_key_def extract_instance_id_def extract_zone_def extract_project_id_def
  digits_group_def segment_group_def is_digit_def sort_by_def dt_date_def Let_def s_sum_def
  s_mean_def s_min_def s_max_def s_std_def dropna_def fsub_def mode_def sku_category_agg_def
  pad2_def pad4_def digit_def date_instance_le_def memory_used_gb_def
  network_total_bytes_def disk_total_bytes_def signed_inf_def

lemma example_preprocess:
  "preprocess_vm_data example_strptime example_batch = Inr example_table"
  by (simp add: preprocess_eval example_strptime_def example_event_def example_batch_def
      example_categories example_cost_per_cpu example_table_def example_row1_def example_row2_def
      example_row3_def)

section \<open>The mode of the categories\<close>

lemma foldr_max_ge: "x \<in> set ns \<Longrightarrow> x \<le> foldr max ns (0::nat)"
  by (induction ns) auto

lemma foldr_max_mem: "ns \<noteq> [] \<Longrightarrow> foldr max ns (0::nat) \<in> set ns"
proof (induction ns)
  case Nil
  then show ?case by simp
next
  case (Cons n ns)
  show ?case
  proof (cases "ns = []")
    case True
    then show ?thesis by simp
  next
    case False
    with Cons.IH have "foldr max ns 0 \<in> set ns" by simp
    moreover have "max n (foldr max ns 0) = n \<or> max n (foldr max ns 0) = foldr max ns 0"
      by (simp add: max_def)
    ultimately show ?thesis by auto
  qed
qed

lemma count_le_top: "count_list xs v \<le> foldr max (map (count_list xs) xs) 0"
proof (cases "v \<in> set xs")
  case True
  then show ?thesis by (intro foldr_max_ge) simp
next
  case False
  then show ?thesis by simp
qed

lemma mode_props:
  assumes "xs \<noteq> []"
  shows "mode xs \<noteq> []"
    and "hd (mode xs) \<in> set xs"
    and "count_list xs v \<le> count_list xs (hd (mode xs))"
    and "v \<in> set xs \<Longrightarrow> count_list xs v = count_list xs (hd (mode xs)) \<Longrightarrow> hd (mode xs) \<le> v"
proof -
  let ?top = "foldr max (map (count_list xs) xs) 0"
  let ?ys = "filter (\<lambda>v. count_list xs v = ?top) (unique xs)"
  have m: "mode xs = sort ?ys" by (simp add: mode_def Let_def)
  from assms have "?top \<in> set (map (count_list xs) xs)" by (intro foldr_max_mem) simp
  then obtain w where w: "w \<in> set xs" "count_list xs w = ?top" by auto
  then have "w \<in> set ?ys" by (simp add: set_unique)
  then have ne: "?ys \<noteq> []" by (metis list.set(1) empty_iff)
  then show ne': "mode xs \<noteq> []" unfolding m by (metis set_sort set_empty)
  then have "hd (mode xs) \<in> set (mode xs)" by simp
  then have h: "hd (mode xs) \<in> set ?ys" by (simp add: m)
  then show "hd (mode xs) \<in> set xs" by (simp add: set_unique)
  from h have top: "count_list xs (hd (mode xs)) = ?top" by simp
  show "count_list xs v \<le> count_list xs (hd (mode xs))"
    by (simp only: top count_le_top)
  show "hd (mode xs) \<le> v" if "v \<in> set xs" "count_list xs v = count_list xs (hd (mode xs))"
  proof -
    from that top have "v \<in> set (mode xs)" by (simp add: m set_unique)
    moreover have "sorted (mode xs)" by (simp add: m)
    ultimately show ?thesis using ne' by (cases "mode xs") auto
  qed
qed

lemma sku_category_agg_mode:
  "xs \<noteq> [] \<Longrightarrow> sku_category_agg xs = Inr c \<Longrightarrow> c = hd (mode xs)"
  using mode_props(1) [of xs] by (simp add: sku_category_agg_def)

lemma row_ok_category: "row_ok P r \<Longrightarrow> row_sku_category r = category_of (event r)"
  by (auto simp: row_ok_def category_of_def)

lemma group_categories:
  assumes "\<forall>r\<in>set rs. row_ok P r"
  shows "map row_sku_category rs = map category_of (map event rs)"
  using assms by (induction rs) (auto dest: row_ok_category)

lemma preprocess_group_ex:
  assumes "preprocess_vm_data P df = Inr daily" and "a \<in> set daily"
  shows "\<exists>k rs. agg_group (k, rs) = Inr a \<and> map event rs = group_events P df a \<and> rs \<noteq> [] \<and>
    (\<forall>r\<in>set rs. row_ok P r)"
  by (rule preprocess_group [OF assms]) blast

lemma preprocess_mode:
  assumes "preprocess_vm_data P df = Inr daily" and "a \<in> set daily"
  shows "map category_of (group_events P df a) \<noteq> [] \<and>
         sku_category a = hd (mode (map category_of (group_events P df a)))"
proof -
  from assms obtain k rs where g: "agg_group (k, rs) = Inr a"
    and ev: "map event rs = group_events P df a" and ne: "rs \<noteq> []"
    and ok: "\<forall>r\<in>set rs. row_ok P r"
    using preprocess_group_ex by blast
  have c: "map row_sku_category rs = map category_of (group_events P df a)"
    using group_categories [OF ok] by (simp add: ev)
  from ne have ne': "map row_sku_category rs \<noteq> []" by simp
  from g have "sku_category_agg (map row_sku_category rs) = Inr (sku_category a)"
    by (rule agg_group_category)
  with ne' have "sku_category a = hd (mode (map row_sku_category rs))"
    by (rule sku_category_agg_mode)
  with ne' c show ?thesis by simp
qed

section \<open>Sums over the groups\<close>

lemma s_sum_num: "s_sum (map num os) = Fin (\<Sum>x\<leftarrow>os. case x of None \<Rightarrow> 0 | Some c \<Rightarrow> c)"
  by (induction os) (auto simp: s_sum_def dropna_def split: option.splits)

lemma s_sum_Fin: "s_sum (map Fin xs) = Fin (sum_list xs)"
  by (induction xs) (auto simp: s_sum_def dropna_def)

lemma sum_list_absent: "a \<notin> set ks \<Longrightarrow> (\<Sum>k\<leftarrow>ks. if a = k then v else 0) = (0::real)"
  by (induction ks) auto

lemma sum_list_single:
  "distinct ks \<Longrightarrow> a \<in> set ks \<Longrightarrow> (\<Sum>k\<leftarrow>ks. if a = k then v else 0) = (v::real)"
  by (induction ks) (auto simp: sum_list_absent)

lemma sum_list_groups:
  assumes "distinct ks" and "key ` set rows \<subseteq> set ks"
  shows "(\<Sum>k\<leftarrow>ks. \<Sum>r\<leftarrow>filter (\<lambda>r. key r = k) rows. c r) = (\<Sum>r\<leftarrow>rows. (c r :: real))"
  using assms(2)
proof (induction rows)
  case Nil
  then show ?case by simp
next
  case (Cons r rows)
  have "(\<Sum>k\<leftarrow>ks. \<Sum>x\<leftarrow>filter (\<lambda>x. key x = k) (r # rows). c x) =
        (\<Sum>k\<leftarrow>ks. (if key r = k then c r else 0) + (\<Sum>x\<leftarrow>filter (\<lambda>x. key x = k) rows. c x))"
    by (intro arg_cong [where f = sum_list] map_cong) auto
  also have "\<dots> = (\<Sum>k\<leftarrow>ks. if key r = k then c r else 0) +
                  (\<Sum>k\<leftarrow>ks. \<Sum>x\<leftarrow>filter (\<lambda>x. key x = k) rows. c x)"
    by (simp add: sum_list_addf)
  also have "(\<Sum>k\<leftarrow>ks. if key r = k then c r else 0) = c r"
    using assms(1) Cons.prems by (intro sum_list_single) auto
  also have "(\<Sum>k\<leftarrow>ks. \<Sum>x\<leftarrow>filter (\<lambda>x. key x = k) rows. c x) = (\<Sum>x\<leftarrow>rows. c x)"
    using Cons.prems by (intro Cons.IH) auto
  finally show ?case by simp
qed

lemma s_sum_costs:
  "s_sum (map (\<lambda>r. num (cost_usd (f r))) rs) = Fin (\<Sum>r\<leftarrow>rs. known_cost (f r))"
  using s_sum_num [of "map (\<lambda>r. cost_usd (f r)) rs"] by (simp add: comp_def known_cost_def)

lemma agg_group_cost_val:
  "agg_group g = Inr a \<Longrightarrow> cost_usd_sum a = Fin (\<Sum>r\<leftarrow>snd g. known_cost (event r))"
  by (cases g) (auto dest!: agg_group_cost simp: s_sum_costs comp_def)

lemma preprocess_cost_sum:
  assumes "preprocess_vm_data P df = Inr daily"
  shows "s_sum (map cost_usd_sum daily) = Fin (\<Sum>e\<leftarrow>df. known_cost e)"
proof -
  from assms obtain rows aggs where ev: "map event rows = df"
    and aggs: "list_all2 (\<lambda>g a. agg_group g = Inr a) (groupby row_key key_le rows) aggs"
    and daily: "daily = sort_by date_instance_le aggs"
    using preprocess_structure by blast
  let ?ks = "sort_by key_le (unique (map row_key rows))"
  let ?tot = "\<lambda>g :: group_key \<times> row list. \<Sum>r\<leftarrow>snd g. known_cost (event r)"
  define val where "val a = (case cost_usd_sum a of Fin x \<Rightarrow> x | _ \<Rightarrow> 0)" for a :: agg
  have vals: "map val aggs = map ?tot (groupby row_key key_le rows)"
    using aggs by (rule list_all2_map_eq) (simp add: val_def agg_group_cost_val)
  have fin: "cost_usd_sum a = Fin (val a)" if "a \<in> set daily" for a :: agg
  proof -
    from that have "a \<in> set aggs" by (simp add: daily set_sort_by)
    with aggs obtain g where "agg_group g = Inr a" by (blast dest: list_all2_right)
    then show ?thesis by (simp add: val_def agg_group_cost_val)
  qed
  then have "map cost_usd_sum daily = map Fin (map val daily)" by simp
  then have "s_sum (map cost_usd_sum daily) = Fin (sum_list (map val daily))"
    by (simp only: s_sum_Fin)
  also have "sum_list (map val daily) = sum_list (map val aggs)"
    by (simp only: daily sum_list_map_sort_by)
  also have "map val aggs = map (\<lambda>k. \<Sum>r\<leftarrow>filter (\<lambda>r. row_key r = k) rows. known_cost (event r)) ?ks"
    by (simp add: vals groupby_def comp_def)
  also have "sum_list \<dots> = (\<Sum>r\<leftarrow>rows. known_cost (event r))"
  proof (rule sum_list_groups)
    have "distinct (map (\<lambda>k. k) ?ks)"
      by (simp only: distinct_map_sort_by) (simp add: distinct_unique)
    then show "distinct ?ks" by simp
    show "row_key ` set rows \<subseteq> set ?ks" by (simp add: set_sort_by set_unique)
  qed
  also have "\<dots> = (\<Sum>e\<leftarrow>map event rows. known_cost e)" by (simp add: comp_def)
  finally show ?thesis by (simp only: ev)
qed

section \<open>What the extraction patterns match\<close>

lemma re_search_Some:
  "re_search lit grp s = Some g \<Longrightarrow> \<exists>pre rest. s = pre @ lit @ rest \<and> grp rest = Some g"
proof (induction s)
  case Nil
  then show ?case by simp
next
  case (Cons c cs)
  show ?case
  proof (cases "prefix lit (c # cs) \<and> grp (drop (length lit) (c # cs)) = Some g")
    case True
    then obtain rest where r: "c # cs = lit @ rest" by (auto simp: prefix_def)
    with True have "grp rest = Some g" by simp
    with r have "c # cs = [] @ lit @ rest \<and> grp rest = Some g" by simp
    then show ?thesis by blast
  next
    case False
    with Cons.prems have "re_search lit grp cs = Some g"
      by (auto split: if_splits option.splits)
    with Cons.IH obtain pre rest where "cs = pre @ lit @ rest" "grp rest = Some g" by blast
    then have "c # cs = (c # pre) @ lit @ rest \<and> grp rest = Some g" by simp
    then show ?thesis by blast
  qed
qed

lemma re_search_found:
  assumes "lit \<noteq> []" and "grp rest \<noteq> None"
  shows "re_search lit grp (pre @ lit @ rest) \<noteq> None"
proof (induction pre)
  case Nil
  from assms(1) obtain c cs where e: "lit @ rest = c # cs" by (cases lit) auto
  have "prefix lit (lit @ rest)" "drop (length lit) (lit @ rest) = rest" by simp_all
  then have "prefix lit (c # cs)" "grp (drop (length lit) (c # cs)) \<noteq> None"
    using assms(2) by (simp_all add: e)
  then have "re_search lit grp (c # cs) \<noteq> None" by (auto split: option.splits)
  then show ?case by (simp add: e)
next
  case (Cons c pre)
  then show ?case by (auto split: option.splits)
qed

lemma digits_group_Some:
  "digits_group rest = Some g \<Longrightarrow> g \<noteq> [] \<and> (\<forall>c\<in>set g. is_digit c) \<and> (\<exists>more. rest = g @ more)"
proof -
  assume a: "digits_group rest = Some g"
  then have g: "g = takeWhile is_digit rest" and ne: "g \<noteq> []"
    by (auto simp: digits_group_def split: list.splits)
  have "rest = g @ dropWhile is_digit rest" by (simp add: g)
  moreover have "\<forall>c\<in>set g. is_digit c" unfolding g by (auto dest: set_takeWhileD)
  ultimately show ?thesis using ne by blast
qed

lemma digits_group_found:
  "ds \<noteq> [] \<Longrightarrow> \<forall>c\<in>set ds. is_digit c \<Longrightarrow> digits_group (ds @ rest) \<noteq> None"
  by (cases ds) (auto simp: digits_group_def split: list.splits)

lemma segment_group_Some:
  "segment_group rest = Some g \<Longrightarrow>
     g \<noteq> [] \<and> CHR ''/'' \<notin> set g \<and> (\<exists>more. rest = g @ ''/'' @ more)"
proof -
  assume a: "segment_group rest = Some g"
  let ?p = "\<lambda>c. c \<noteq> CHR ''/''"
  from a have g: "g = takeWhile ?p rest" and ne: "g \<noteq> []"
    and pre: "prefix ''/'' (drop (length g) rest)"
    by (auto simp: segment_group_def Let_def split: if_splits)
  from pre obtain more where "drop (length g) rest = ''/'' @ more" by (auto simp: prefix_def)
  moreover have "rest = take (length g) rest @ drop (length g) rest" by simp
  moreover have "take (length g) rest = g" unfolding g by (simp add: takeWhile_eq_take [symmetric])
  ultimately have "rest = g @ ''/'' @ more" by metis
  moreover have "CHR ''/'' \<notin> set g" unfolding g by (auto dest: set_takeWhileD)
  ultimately show ?thesis using ne by blast
qed

lemma segment_group_found:
  assumes "seg \<noteq> []" and "CHR ''/'' \<notin> set seg"
  shows "segment_group (seg @ ''/'' @ rest) \<noteq> None"
proof -
  from assms(2) have "takeWhile (\<lambda>c. c \<noteq> CHR ''/'') (seg @ ''/'' @ rest) = seg"
    by (induction seg) auto
  with assms(1) show ?thesis by (simp add: segment_group_def)
qed

lemma extract_instance_id_None:
  "extract_instance_id (Some s) = None \<longleftrightarrow> \<not> instance_pattern_found s"
proof
  assume n: "extract_instance_id (Some s) = None"
  show "\<not> instance_pattern_found s"
  proof
    assume "instance_pattern_found s"
    then obtain pre ds rest where "s = pre @ ''/instances/'' @ ds @ rest" "ds \<noteq> []"
      "\<forall>c\<in>set ds. is_digit c" by (auto simp: instance_pattern_found_def)
    then have "re_search ''/instances/'' digits_group s \<noteq> None"
      using re_search_found [of "''/instances/''" digits_group "ds @ rest" pre]
        digits_group_found [of ds rest] by simp
    with n show False by (simp add: extract_instance_id_def)
  qed
next
  assume nf: "\<not> instance_pattern_found s"
  show "extract_instance_id (Some s) = None"
  proof (rule ccontr)
    assume "extract_instance_id (Some s) \<noteq> None"
    then obtain g where "re_search ''/instances/'' digits_group s = Some g"
      by (auto simp: extract_instance_id_def)
    then obtain pre rest where s: "s = pre @ ''/instances/'' @ rest" and "digits_group rest = Some g"
      by (blast dest: re_search_Some)
    then obtain more where "g \<noteq> []" "\<forall>c\<in>set g. is_digit c" "rest = g @ more"
      by (blast dest: digits_group_Some)
    with s have "instance_pattern_found s" unfolding instance_pattern_found_def by blast
    with nf show False by simp
  qed
qed

lemma segment_search_None:
  assumes "lit \<noteq> []"
  shows "re_search lit segment_group s = None \<longleftrightarrow> \<not> segment_pattern_found lit s"
proof
  assume n: "re_search lit segment_group s = None"
  show "\<not> segment_pattern_found lit s"
  proof
    assume "segment_pattern_found lit s"
    then obtain pre seg rest where "s = pre @ lit @ seg @ ''/'' @ rest" "seg \<noteq> []"
      "CHR ''/'' \<notin> set seg" by (auto simp: segment_pattern_found_def)
    then have "re_search lit segment_group s \<noteq> None"
      using re_search_found [of lit segment_group "seg @ ''/'' @ rest" pre]
        segment_group_found [of seg rest] assms by simp
    with n show False by simp
  qed
next
  assume nf: "\<not> segment_pattern_found lit s"
  show "re_search lit segment_group s = None"
  proof (rule ccontr)
    assume "re_search lit segment_group s \<noteq> None"
    then obtain g where "re_search lit segment_group s = Some g" by auto
    then obtain pre rest where s: "s = pre @ lit @ rest" and "segment_group rest = Some g"
      by (blast dest: re_search_Some)
    then obtain more where "g \<noteq> []" "CHR ''/'' \<notin> set g" "rest = g @ ''/'' @ more"
      by (blast dest: segment_group_Some)
    with s have "segment_pattern_found lit s" unfolding segment_pattern_found_def by blast
    with nf show False by simp
  qed
qed

section \<open>The claims about the preprocessor\<close>

text \<open>
  C1. Whenever \<open>preprocess_vm_data\<close> returns a table, no two of its rows share the
  tuple (date, instance_id, project_id, zone): the grouping key identifies a row.
\<close>

theorem preprocess_keys_unique:
  assumes "preprocess_vm_data strptime df = Inr daily"
  shows "distinct (map (\<lambda>a. (date a, instance_id a, project_id a, zone a)) daily)"
proof -
  have "agg_key = (\<lambda>a. (date a, instance_id a, project_id a, zone a))"
    by (rule ext) (simp add: agg_key_def)
  then show ?thesis using preprocess_distinct_keys [OF assms] by simp
qed

theorem preprocess_keys_unique_witness:
  "preprocess_vm_data example_strptime example_batch = Inr example_table \<and>
   distinct (map (\<lambda>a. (date a, instance_id a, project_id a, zone a)) example_table)"
  using preprocess_keys_unique [OF example_preprocess] example_preprocess by simp

text \<open>
  C5. Cost is conserved by the aggregation: whenever \<open>preprocess_vm_data\<close> returns a
  table, the sum of its column \<open>cost_usd_sum\<close> equals the sum of the column \<open>cost_usd\<close>
  of the input, both sums taken as pandas takes them (a missing cost adds nothing) and
  in exact arithmetic.
\<close>

theorem preprocess_cost_conserved:
  assumes "preprocess_vm_data strptime df = Inr daily"
  shows "s_sum (map cost_usd_sum daily) = s_sum (map (\<lambda>e. num (cost_usd e)) df)"
  using preprocess_cost_sum [OF assms] s_sum_costs [of "\<lambda>e. e" df] by simp

theorem preprocess_cost_conserved_witness:
  "preprocess_vm_data example_strptime example_batch = Inr example_table \<and>
   s_sum (map cost_usd_sum example_table) = Fin 10 \<and>
   s_sum (map (\<lambda>e. num (cost_usd e)) example_batch) = Fin 10"
proof -
  have "s_sum (map (\<lambda>e. num (cost_usd e)) example_batch) = Fin 10"
    by (simp add: example_batch_def example_event_def s_sum_def dropna_def)
  with preprocess_cost_conserved [OF example_preprocess] example_preprocess
  show ?thesis by simp
qed

text \<open>
  The denominator of \<open>cost_per_cpu\<close>: for a utilization that is not negative the
  rounded sum with \<open>0.001\<close> is positive, an infinity at most.
\<close>

lemma cost_per_cpu_denominator:
  assumes "0 \<le> u"
  shows "f64_add (Fin u) (Fin f64_0_001) = PInf \<or>
         (\<exists>y. f64_add (Fin u) (Fin f64_0_001) = Fin y \<and> f64_0_001 / 2 \<le> y)"
proof -
  have "2 powi (- 1022) \<le> (2::real) powi (- 10)" by (intro power_int_increasing) auto
  also have "\<dots> \<le> f64_0_001" by (simp add: f64_0_001_def)
  finally have "2 powi (- 1022) \<le> u + f64_0_001" using assms by simp
  from round64_positive [OF this] assms show ?thesis
    by (auto simp: f64_add_def)
qed

text \<open>
  C6 (amended). For an event whose CPU utilization is present and not negative, the
  denominator \<open>cpu_utilization + 0.001\<close>, as binary64 arithmetic computes it, is
  positive: it is never zero, and the division by zero is not reached. The derived
  \<open>cost_per_cpu\<close> is the binary64 quotient of the cost by that denominator. It is
  finite when the cost is present and at most \<open>2^1012\<close> in magnitude; for a larger cost
  the quotient can leave the range of the finite numbers.
\<close>

theorem cost_per_cpu_denominator_positive:
  assumes "cpu_utilization e = Some u" and "0 \<le> u"
  shows "flt (Fin 0) (f64_add (Fin u) (Fin f64_0_001)) \<and>
    cost_per_cpu e = f64_div (num (cost_usd e)) (f64_add (Fin u) (Fin f64_0_001)) \<and>
    (\<forall>c. cost_usd e = Some c \<longrightarrow> \<bar>c\<bar> \<le> 2 ^ 1012 \<longrightarrow> is_finite (cost_per_cpu e))"
proof -
  let ?d = "f64_add (Fin u) (Fin f64_0_001)"
  have q: "cost_per_cpu e = f64_div (num (cost_usd e)) ?d"
    by (simp add: cost_per_cpu_def assms(1))
  have fin: "is_finite (cost_per_cpu e)" if c: "cost_usd e = Some c" and b: "\<bar>c\<bar> \<le> 2 ^ 1012" for c
  proof -
    from cost_per_cpu_denominator [OF assms(2)] consider "?d = PInf"
      | y where "?d = Fin y" "f64_0_001 / 2 \<le> y" by blast
    then show ?thesis
    proof cases
      case 1
      then show ?thesis by (simp add: q c f64_div_def round64_def)
    next
      case 2
      have p: "0 < f64_0_001 / 2" by (simp add: f64_0_001_def)
      with 2(2) have y: "0 < y" by linarith
      have "\<bar>c / y\<bar> = \<bar>c\<bar> / y" using y by simp
      also have "\<dots> \<le> \<bar>c\<bar> / (f64_0_001 / 2)" using 2(2) p by (intro divide_left_mono) auto
      also have "\<dots> \<le> 2 ^ 1012 / (f64_0_001 / 2)" using b p by (intro divide_right_mono) auto
      also have "\<dots> \<le> 2 ^ 1023" by (simp add: f64_0_001_def)
      finally obtain z where "round64 (c / y) = Fin z" using round64_finite by blast
      with 2(1) y show ?thesis by (simp add: q c f64_div_def)
    qed
  qed
  have "flt (Fin 0) ?d"
  proof -
    have "0 < f64_0_001 / 2" by (simp add: f64_0_001_def)
    with cost_per_cpu_denominator [OF assms(2)] show ?thesis by auto
  qed
  with q fin show ?thesis by blast
qed

theorem cost_per_cpu_denominator_positive_witness:
  "cpu_utilization (example_batch ! 0) = Some (1 / 2) \<and> (0::real) \<le> 1 / 2 \<and>
   cost_usd (example_batch ! 0) = Some 2 \<and>
   flt (Fin 0) (f64_add (Fin (1 / 2)) (Fin f64_0_001)) \<and>
   is_finite (cost_per_cpu (example_batch ! 0)) \<and>
   cost_per_cpu (example_batch ! 0) = Fin (4494610406557381 / 1125899906842624)"
proof -
  have u: "cpu_utilization (example_batch ! 0) = Some (1 / 2)"
    and c: "cost_usd (example_batch ! 0) = Some 2"
    by (simp_all add: example_batch_def example_event_def)
  have p: "(0::real) \<le> 1 / 2" by simp
  have b: "\<bar>2::real\<bar> \<le> 2 ^ 1012" by simp
  from cost_per_cpu_denominator_positive [OF u p] c b
  have "flt (Fin 0) (f64_add (Fin (1 / 2)) (Fin f64_0_001))"
    and "is_finite (cost_per_cpu (example_batch ! 0))" by blast+
  with u c p example_cost_per_cpu(2) [OF u c] show ?thesis by simp
qed

text \<open>
  The claim as stated fails where the quotient overflows: with no utilization and a
  cost of \<open>2^1023\<close> the denominator is \<open>0.001\<close> and the quotient is an infinity.
\<close>

theorem cost_per_cpu_overflow_counterexample:
  "cpu_utilization overflow_event = Some 0 \<and> cost_usd overflow_event = Some (2 ^ 1023) \<and>
   cost_per_cpu overflow_event = PInf \<and> \<not> is_finite (cost_per_cpu overflow_event)"
proof -
  have d: "f64_add (Fin 0) (Fin f64_0_001) = Fin f64_0_001"
    using round64_normal [of "- 10" f64_0_001]
    by (simp add: f64_add_def f64_0_001_def round_half_even_def)
  have "(2::real) ^ 1024 \<le> 2 ^ 1023 / f64_0_001" by (simp add: f64_0_001_def)
  then have "round64 (2 ^ 1023 / f64_0_001) = PInf" by (rule round64_overflow)
  moreover have "f64_0_001 \<noteq> 0" by (simp add: f64_0_001_def)
  ultimately have "cost_per_cpu overflow_event = PInf"
    by (simp add: cost_per_cpu_def overflow_event_def example_event_def d f64_div_def)
  then show ?thesis by (simp add: overflow_event_def example_event_def)
qed

lemma no_instance_match_None:
  "no_instance_match e \<Longrightarrow> extract_instance_id (resource_global_name e) = None"
  by (cases "resource_global_name e")
    (simp_all add: no_instance_match_def extract_instance_id_None, simp add: extract_instance_id_def)

lemma no_zone_match_None: "no_zone_match e \<Longrightarrow> extract_zone (resource_global_name e) = None"
  by (cases "resource_global_name e")
    (simp_all add: no_zone_match_def extract_zone_def segment_search_None)

lemma no_project_match_None:
  "no_project_match e \<Longrightarrow> extract_project_id (resource_global_name e) = None"
  by (cases "resource_global_name e")
    (simp_all add: no_project_match_def extract_project_id_def segment_search_None)

lemma event_key_fields:
  assumes "event_key P e = Some (agg_key a)"
  shows "instance_id a = extract_instance_id (resource_global_name e)"
    and "project_id a = extract_project_id (resource_global_name e)"
    and "zone a = extract_zone (resource_global_name e)"
  using assms by (auto simp: event_key_def agg_key_def split: sum.splits)

text \<open>
  C7. A batch whose timestamps all parse and whose descriptions are all present is
  never rejected, whatever its resource names are. Every event is then represented in
  the table by the row of its key, and where the name does not match the pattern of
  the instance id, the zone or the project (or is missing), that field of the key is
  null: the rows with a null key form groups of their own and are not dropped.
\<close>

theorem failed_extraction_keeps_row:
  assumes "\<forall>e\<in>set df. (\<exists>t. to_datetime strptime (timestamp e) = Inr t) \<and> sku_description e \<noteq> None"
  shows "\<exists>daily. preprocess_vm_data strptime df = Inr daily \<and>
     (\<forall>e\<in>set df. \<exists>a\<in>set daily. event_key strptime e = Some (agg_key a) \<and>
        (no_instance_match e \<longrightarrow> instance_id a = None) \<and>
        (no_zone_match e \<longrightarrow> zone a = None) \<and>
        (no_project_match e \<longrightarrow> project_id a = None))"
proof -
  from assms obtain daily where d: "preprocess_vm_data strptime df = Inr daily"
    using preprocess_total [of df strptime] by blast
  have "\<exists>a\<in>set daily. event_key strptime e = Some (agg_key a) \<and>
        (no_instance_match e \<longrightarrow> instance_id a = None) \<and>
        (no_zone_match e \<longrightarrow> zone a = None) \<and>
        (no_project_match e \<longrightarrow> project_id a = None)" if "e \<in> set df" for e
  proof -
    from d that obtain a where a: "a \<in> set daily" and k: "event_key strptime e = Some (agg_key a)"
      using preprocess_covers by blast
    from k have "no_instance_match e \<longrightarrow> instance_id a = None"
      by (simp add: event_key_fields no_instance_match_None)
    moreover from k have "no_zone_match e \<longrightarrow> zone a = None"
      by (simp add: event_key_fields no_zone_match_None)
    moreover from k have "no_project_match e \<longrightarrow> project_id a = None"
      by (simp add: event_key_fields no_project_match_None)
    ultimately show ?thesis using a k by blast
  qed
  with d show ?thesis by blast
qed

lemma example_unknown_no_match:
  "no_instance_match (example_batch ! 2)" "no_zone_match (example_batch ! 2)"
  "no_project_match (example_batch ! 2)"
proof -
  have n: "resource_global_name (example_batch ! 2) = Some ''unknown''"
    by (simp add: example_batch_def example_event_def)
  have "extract_instance_id (Some ''unknown'') = None"
    by (simp add: extract_instance_id_def digits_group_def)
  then have "\<not> instance_pattern_found ''unknown''"
    using extract_instance_id_None [of "''unknown''"] by blast
  then show "no_instance_match (example_batch ! 2)"
    by (simp add: no_instance_match_def n)
  have "re_search ''/zones/'' segment_group ''unknown'' = None"
    by (simp add: segment_group_def)
  then have "\<not> segment_pattern_found ''/zones/'' ''unknown''"
    using segment_search_None [of "''/zones/''" "''unknown''"] by blast
  then show "no_zone_match (example_batch ! 2)"
    by (simp add: no_zone_match_def n)
  have "re_search ''/projects/'' segment_group ''unknown'' = None"
    by (simp add: segment_group_def)
  then have "\<not> segment_pattern_found ''/projects/'' ''unknown''"
    using segment_search_None [of "''/projects/''" "''unknown''"] by blast
  then show "no_project_match (example_batch ! 2)"
    by (simp add: no_project_match_def n)
qed

theorem failed_extraction_keeps_row_witness:
  "preprocess_vm_data example_strptime example_batch = Inr example_table \<and>
   no_instance_match (example_batch ! 2) \<and> no_zone_match (example_batch ! 2) \<and>
   no_project_match (example_batch ! 2) \<and>
   (\<exists>a\<in>set example_table. event_key example_strptime (example_batch ! 2) = Some (agg_key a) \<and>
      instance_id a = None \<and> zone a = None \<and> project_id a = None)"
proof -
  have h: "\<forall>e\<in>set example_batch.
      (\<exists>t. to_datetime example_strptime (timestamp e) = Inr t) \<and> sku_description e \<noteq> None"
    by (simp add: example_batch_def example_event_def to_datetime_def example_strptime_def
        valid_datetime_def)
  have m: "example_batch ! 2 \<in> set example_batch" by (simp add: example_batch_def)
  from failed_extraction_keeps_row [OF h] example_preprocess m example_unknown_no_match
  show ?thesis by fastforce
qed

text \<open>
  C4 (amended). For every row of the table, the aggregated \<open>sku_category\<close> is a mode
  of the SKU categories of the events of its group: it occurs in the group and no
  category occurs more often. When several categories are tied for most frequent, the
  one chosen is the smallest of them in the order of strings, because \<open>Series.mode()\<close>
  returns its modes sorted; it is not the first one met in the input.
\<close>

theorem sku_category_smallest_mode:
  assumes "preprocess_vm_data strptime df = Inr daily" and "a \<in> set daily"
  shows "sku_category a \<in> set (categories_of_group strptime df a) \<and>
    (\<forall>c. count_list (categories_of_group strptime df a) c
          \<le> count_list (categories_of_group strptime df a) (sku_category a)) \<and>
    (\<forall>c\<in>set (categories_of_group strptime df a).
        count_list (categories_of_group strptime df a) c
          = count_list (categories_of_group strptime df a) (sku_category a)
        \<longrightarrow> sku_category a \<le> c)"
proof -
  let ?cats = "categories_of_group strptime df a"
  from preprocess_mode [OF assms] have ne: "?cats \<noteq> []" and m: "sku_category a = hd (mode ?cats)"
    by (simp_all add: categories_of_group_def)
  show ?thesis unfolding m using mode_props [OF ne] by blast
qed

lemma example_row1_categories:
  "categories_of_group example_strptime example_batch example_row1 = [''Storage'', ''Other'']"
  by (simp add: categories_of_group_def group_events_def event_key_def agg_key_def
      to_datetime_def valid_datetime_def example_strptime_def example_batch_def
      example_event_def example_row1_def dt_date_def pad2_def pad4_def digit_def
      extract_instance_id_def extract_zone_def extract_project_id_def digits_group_def
      segment_group_def is_digit_def category_of_def categorize_def example_categories)

theorem sku_category_smallest_mode_witness:
  "preprocess_vm_data example_strptime example_batch = Inr example_table \<and>
   example_row1 \<in> set example_table \<and>
   categories_of_group example_strptime example_batch example_row1 = [''Storage'', ''Other''] \<and>
   sku_category example_row1 = ''Other'' \<and>
   sku_category example_row1 \<le> ''Storage''"
proof -
  have m: "example_row1 \<in> set example_table" by (simp add: example_table_def)
  have c: "sku_category example_row1 = ''Other''" by (simp add: example_row1_def)
  from sku_category_smallest_mode [OF example_preprocess m]
  have "sku_category example_row1 \<le> ''Storage''"
    by (simp add: example_row1_categories c)
  with m c example_preprocess example_row1_categories show ?thesis by simp
qed

text \<open>
  The claim as stated fails on the worked batch: in the group of the first row the
  categories Storage and Other occur once each, Storage is met first, and the table
  holds Other.
\<close>

theorem sku_category_first_mode_counterexample:
  "preprocess_vm_data example_strptime example_batch = Inr example_table \<and>
   example_row1 \<in> set example_table \<and>
   first_mode (categories_of_group example_strptime example_batch example_row1) = Some ''Storage'' \<and>
   sku_category example_row1 = ''Other''"
proof -
  have "example_row1 \<in> set example_table" by (simp add: example_table_def)
  moreover have "first_mode [''Storage'', ''Other''] = Some ''Storage''"
    by (simp add: first_mode_def)
  moreover have "sku_category example_row1 = ''Other''" by (simp add: example_row1_def)
  ultimately show ?thesis by (simp only: example_preprocess example_row1_categories simp_thms)
qed

section \<open>The claims about the analyzer\<close>

lemma f64_mean_single: "round64 v = Fin v \<Longrightarrow> f64_mean [Fin v] = Fin v"
  by (simp add: f64_mean_def f64_sum_def dropna_def f64_add_def f64_div_def)

lemma example_doubles:
  "round64 100 = Fin 100"
  "round64 105 = Fin 105"
  "round64 59 = Fin 59"
  "round64 (4359758877396933 / 70368744177664) = Fin (4359758877396933 / 70368744177664)"
  "round64 95 = Fin 95"
  "round64 90 = Fin 90"
  "round64 (8641281785017139 / 140737488355328) = Fin (8641281785017139 / 140737488355328)"
  "round64 (2268336468566999 / 35184372088832) = Fin (2268336468566999 / 35184372088832)"
  "round64 (9004479445463419 / 137438953472) = Fin (9004479445463419 / 137438953472)"
  "round64 (1069281934148781 / 17179869184) = Fin (1069281934148781 / 17179869184)"
  using round64_normal [of "6" "100"]
    round64_normal [of "6" "105"]
    round64_normal [of "5" "59"]
    round64_normal [of "5" "4359758877396933 / 70368744177664"]
    round64_normal [of "6" "95"]
    round64_normal [of "6" "90"]
    round64_normal [of "5" "8641281785017139 / 140737488355328"]
    round64_normal [of "6" "2268336468566999 / 35184372088832"]
    round64_normal [of "15" "9004479445463419 / 137438953472"]
    round64_normal [of "15" "1069281934148781 / 17179869184"]
  by (simp_all add: round_half_even_def)

lemma pct_change_up5:
  "pct_change (Fin 100) (Fin 105) = Fin 5"
proof -
  have s: "f64_sub (Fin 105) (Fin 100) = Fin 5"
    using round64_normal [of "2" "105 - 100"]
    by (simp add: f64_sub_def fsub_def round_half_even_def)
  have d: "f64_div (Fin 5) (Fin 100) = Fin (3602879701896397 / 72057594037927936)"
    using round64_normal [of "- 5" "5 / 100"]
    by (simp add: f64_div_def round_half_even_def)
  have m: "f64_mul (Fin (3602879701896397 / 72057594037927936)) (Fin 100) = Fin 5"
    using round64_normal [of "2" "(3602879701896397 / 72057594037927936) * 100"]
    by (simp add: f64_mul_def round_half_even_def)
  show ?thesis by (simp only: pct_change_def s d m)
qed

lemma pct_change_up501:
  "pct_change (Fin 59) (Fin (4359758877396933 / 70368744177664)) = Fin (2820379266640773 / 562949953421312)"
proof -
  have s: "f64_sub (Fin (4359758877396933 / 70368744177664)) (Fin 59) = Fin (208002970914757 / 70368744177664)"
    using round64_normal [of "1" "(4359758877396933 / 70368744177664) - 59"]
    by (simp add: f64_sub_def fsub_def round_half_even_def)
  have d: "f64_div (Fin (208002970914757 / 70368744177664)) (Fin 59) = Fin (7220170922600379 / 144115188075855872)"
    using round64_normal [of "- 5" "(208002970914757 / 70368744177664) / 59"]
    by (simp add: f64_div_def round_half_even_def)
  have m: "f64_mul (Fin (7220170922600379 / 144115188075855872)) (Fin 100) = Fin (2820379266640773 / 562949953421312)"
    using round64_normal [of "2" "(7220170922600379 / 144115188075855872) * 100"]
    by (simp add: f64_mul_def round_half_even_def)
  show ?thesis by (simp only: pct_change_def s d m)
qed

lemma pct_change_down5:
  "pct_change (Fin 100) (Fin 95) = Fin (- 5)"
proof -
  have s: "f64_sub (Fin 95) (Fin 100) = Fin (- 5)"
    using round64_normal [of "2" "95 - 100"]
    by (simp add: f64_sub_def fsub_def round_half_even_def)
  have d: "f64_div (Fin (- 5)) (Fin 100) = Fin (- (3602879701896397 / 72057594037927936))"
    using round64_normal [of "- 5" "(- 5) / 100"]
    by (simp add: f64_div_def round_half_even_def)
  have m: "f64_mul (Fin (- (3602879701896397 / 72057594037927936))) (Fin 100) = Fin (- 5)"
    using round64_normal [of "2" "(- (3602879701896397 / 72057594037927936)) * 100"]
    by (simp add: f64_mul_def round_half_even_def)
  show ?thesis by (simp only: pct_change_def s d m)
qed

lemma pct_change_down10:
  "pct_change (Fin 100) (Fin 90) = Fin (- 10)"
proof -
  have s: "f64_sub (Fin 90) (Fin 100) = Fin (- 10)"
    using round64_normal [of "3" "90 - 100"]
    by (simp add: f64_sub_def fsub_def round_half_even_def)
  have d: "f64_div (Fin (- 10)) (Fin 100) = Fin (- (3602879701896397 / 36028797018963968))"
    using round64_normal [of "- 4" "(- 10) / 100"]
    by (simp add: f64_div_def round_half_even_def)
  have m: "f64_mul (Fin (- (3602879701896397 / 36028797018963968))) (Fin 100) = Fin (- 10)"
    using round64_normal [of "3" "(- (3602879701896397 / 36028797018963968)) * 100"]
    by (simp add: f64_mul_def round_half_even_def)
  show ?thesis by (simp only: pct_change_def s d m)
qed

lemma pct_change_r1:
  "pct_change (Fin (8641281785017139 / 140737488355328)) (Fin (2268336468566999 / 35184372088832)) = Fin 5"
proof -
  have s: "f64_sub (Fin (2268336468566999 / 35184372088832)) (Fin (8641281785017139 / 140737488355328)) = Fin (432064089250857 / 140737488355328)"
    using round64_normal [of "1" "(2268336468566999 / 35184372088832) - (8641281785017139 / 140737488355328)"]
    by (simp add: f64_sub_def fsub_def round_half_even_def)
  have d: "f64_div (Fin (432064089250857 / 140737488355328)) (Fin (8641281785017139 / 140737488355328)) = Fin (3602879701896397 / 72057594037927936)"
    using round64_normal [of "- 5" "(432064089250857 / 140737488355328) / (8641281785017139 / 140737488355328)"]
    by (simp add: f64_div_def round_half_even_def)
  have m: "f64_mul (Fin (3602879701896397 / 72057594037927936)) (Fin 100) = Fin 5"
    using round64_normal [of "2" "(3602879701896397 / 72057594037927936) * 100"]
    by (simp add: f64_mul_def round_half_even_def)
  show ?thesis by (simp only: pct_change_def s d m)
qed

lemma pct_change_r2:
  "pct_change (Fin (9004479445463419 / 137438953472)) (Fin (1069281934148781 / 17179869184)) = Fin (- 5)"
proof -
  have s: "f64_sub (Fin (1069281934148781 / 17179869184)) (Fin (9004479445463419 / 137438953472)) = Fin (- (450223972273171 / 137438953472))"
    using round64_normal [of "11" "(1069281934148781 / 17179869184) - (9004479445463419 / 137438953472)"]
    by (simp add: f64_sub_def fsub_def round_half_even_def)
  have d: "f64_div (Fin (- (450223972273171 / 137438953472))) (Fin (9004479445463419 / 137438953472)) = Fin (- (3602879701896397 / 72057594037927936))"
    using round64_normal [of "- 5" "(- (450223972273171 / 137438953472)) / (9004479445463419 / 137438953472)"]
    by (simp add: f64_div_def round_half_even_def)
  have m: "f64_mul (Fin (- (3602879701896397 / 72057594037927936))) (Fin 100) = Fin (- 5)"
    using round64_normal [of "2" "(- (3602879701896397 / 72057594037927936)) * 100"]
    by (simp add: f64_mul_def round_half_even_def)
  show ?thesis by (simp only: pct_change_def s d m)
qed

lemma two_day_table_halves:
  assumes "round64 v = Fin v" and "round64 w = Fin w"
  shows "dropna (map cost_usd_sum (two_day_table v w)) = [Fin v, Fin w]"
    and "first_half_mean one_pass (two_day_table v w) cost_usd_sum = Fin v"
    and "split_halves_pct one_pass (two_day_table v w) cost_usd_sum = pct_change (Fin v) (Fin w)"
  using assms
  by (simp_all add: two_day_table_def flat_row_def dropna_def first_half_mean_def
      second_half_mean_def split_halves_pct_def one_pass_def f64_mean_single)

text \<open>
  C3. Both trend classifiers compare the percent change, as the program computes it in
  binary64, strictly with the thresholds. Where \<open>get_trend_direction\<close> computes a percent
  change (at least two values that are not missing and a first-half mean other than
  zero), a computed change of exactly 5 is \<open>stable\<close>, every computed change above 5, the
  binary64 number 5.01 among them, is \<open>increasing\<close>, exactly -5 is \<open>stable\<close> and anything
  below -5 is \<open>decreasing\<close>, whatever the means of pandas return; and the same holds for
  the label of an overall entry, which exists when the first value is not zero and
  neither value is missing.
\<close>

theorem trend_thresholds_strict:
  assumes "2 \<le> length (dropna (map metric df))" and "first_half_mean pd df metric \<noteq> Fin 0"
    and "first_val \<noteq> Fin 0" and "\<not> isna first_val" and "\<not> isna last_val"
  shows "(split_halves_pct pd df metric = Fin 5 \<longrightarrow> get_trend_direction pd df metric = ''stable'') \<and>
    (fgt (split_halves_pct pd df metric) (Fin 5) \<longrightarrow>
       get_trend_direction pd df metric = ''increasing'') \<and>
    (split_halves_pct pd df metric = Fin f64_5_01 \<longrightarrow>
       get_trend_direction pd df metric = ''increasing'') \<and>
    (split_halves_pct pd df metric = Fin (- 5) \<longrightarrow> get_trend_direction pd df metric = ''stable'') \<and>
    (flt (split_halves_pct pd df metric) (Fin (- 5)) \<longrightarrow>
       get_trend_direction pd df metric = ''decreasing'') \<and>
    (pct_change first_val last_val = Fin 5 \<longrightarrow>
       overall_trend label first_val last_val = Some (PStr ''stable'')) \<and>
    (fgt (pct_change first_val last_val) (Fin 5) \<longrightarrow>
       overall_trend label first_val last_val = Some (PStr ''increasing'')) \<and>
    (pct_change first_val last_val = Fin f64_5_01 \<longrightarrow>
       overall_trend label first_val last_val = Some (PStr ''increasing'')) \<and>
    (pct_change first_val last_val = Fin (- 5) \<longrightarrow>
       overall_trend label first_val last_val = Some (PStr ''stable'')) \<and>
    (flt (pct_change first_val last_val) (Fin (- 5)) \<longrightarrow>
       overall_trend label first_val last_val = Some (PStr ''decreasing''))"
proof -
  have len: "\<not> length df < 2"
  proof -
    have "length (dropna (map metric df)) \<le> length (map metric df)"
      unfolding dropna_def by (rule length_filter_le)
    with assms(1) show ?thesis by simp
  qed
  have lt_gt: "flt p (Fin (- 5)) \<Longrightarrow> \<not> fgt p (Fin 5)" for p
    by (cases p) (simp_all add: fgt_def)
  have d: "get_trend_direction pd df metric =
      (let pct = split_halves_pct pd df metric
       in if fgt pct (Fin 5) then ''increasing''
          else if flt pct (Fin (- 5)) then ''decreasing'' else ''stable'')"
    using assms(1,2) len
    by (simp add: get_trend_direction_def split_halves_pct_def first_half_mean_def
        second_half_mean_def Let_def)
  have o: "overall_trend label first_val last_val =
      Some (PStr (let pct = pct_change first_val last_val
       in if fgt pct (Fin 5) then ''increasing''
          else if flt pct (Fin (- 5)) then ''decreasing'' else ''stable''))"
    using assms(3,4,5) by (simp add: overall_trend_def overall_metric_def Let_def)
  show ?thesis unfolding d o by (auto simp: Let_def fgt_def f64_5_01_def dest: lt_gt)
qed

theorem trend_thresholds_strict_witness:
  "split_halves_pct one_pass (two_day_table 100 105) cost_usd_sum = Fin 5 \<and>
   get_trend_direction one_pass (two_day_table 100 105) cost_usd_sum = ''stable'' \<and>
   split_halves_pct one_pass (two_day_table 59 (4359758877396933 / 70368744177664)) cost_usd_sum
     = Fin f64_5_01 \<and>
   get_trend_direction one_pass (two_day_table 59 (4359758877396933 / 70368744177664)) cost_usd_sum
     = ''increasing'' \<and>
   split_halves_pct one_pass (two_day_table 100 95) cost_usd_sum = Fin (- 5) \<and>
   get_trend_direction one_pass (two_day_table 100 95) cost_usd_sum = ''stable'' \<and>
   split_halves_pct one_pass (two_day_table 100 90) cost_usd_sum = Fin (- 10) \<and>
   get_trend_direction one_pass (two_day_table 100 90) cost_usd_sum = ''decreasing'' \<and>
   get_trend_direction one_pass
     (two_day_table (8641281785017139 / 140737488355328) (2268336468566999 / 35184372088832))
     cost_usd_sum = ''stable'' \<and>
   get_trend_direction one_pass
     (two_day_table (9004479445463419 / 137438953472) (1069281934148781 / 17179869184))
     cost_usd_sum = ''stable'' \<and>
   overall_trend ''Daily Cost'' (Fin 100) (Fin 105) = Some (PStr ''stable'') \<and>
   overall_trend ''Daily Cost'' (Fin 59) (Fin (4359758877396933 / 70368744177664))
     = Some (PStr ''increasing'') \<and>
   overall_trend ''Daily Cost'' (Fin 100) (Fin 95) = Some (PStr ''stable'') \<and>
   overall_trend ''Daily Cost'' (Fin 100) (Fin 90) = Some (PStr ''decreasing'')"
proof -
  note h = two_day_table_halves
  have t: "2 \<le> length (dropna (map cost_usd_sum (two_day_table v w))) \<and>
      first_half_mean one_pass (two_day_table v w) cost_usd_sum \<noteq> Fin 0 \<and>
      split_halves_pct one_pass (two_day_table v w) cost_usd_sum = pct_change (Fin v) (Fin w)"
    if "round64 v = Fin v" and "round64 w = Fin w" and "v \<noteq> 0" for v w
    using that by (simp add: h)
  have a1: "round64 100 = Fin 100 \<and> round64 105 = Fin 105 \<and> (100::real) \<noteq> 0"
    by (simp add: example_doubles)
  have a2: "round64 59 = Fin 59 \<and> round64 (4359758877396933 / 70368744177664)
      = Fin (4359758877396933 / 70368744177664) \<and> (59::real) \<noteq> 0"
    by (simp add: example_doubles)
  have a3: "round64 100 = Fin 100 \<and> round64 95 = Fin 95 \<and> (100::real) \<noteq> 0"
    by (simp add: example_doubles)
  have a4: "round64 100 = Fin 100 \<and> round64 90 = Fin 90 \<and> (100::real) \<noteq> 0"
    by (simp add: example_doubles)
  have a5: "round64 (8641281785017139 / 140737488355328) = Fin (8641281785017139 / 140737488355328)
      \<and> round64 (2268336468566999 / 35184372088832) = Fin (2268336468566999 / 35184372088832)
      \<and> (8641281785017139 / 140737488355328 :: real) \<noteq> 0"
    by (simp add: example_doubles)
  have a6: "round64 (9004479445463419 / 137438953472) = Fin (9004479445463419 / 137438953472)
      \<and> round64 (1069281934148781 / 17179869184) = Fin (1069281934148781 / 17179869184)
      \<and> (9004479445463419 / 137438953472 :: real) \<noteq> 0"
    by (simp add: example_doubles)
  have u: "get_trend_direction one_pass (two_day_table v w) cost_usd_sum =
       (if pct_change (Fin v) (Fin w) = Fin 5 \<or> pct_change (Fin v) (Fin w) = Fin (- 5) then ''stable''
        else if fgt (pct_change (Fin v) (Fin w)) (Fin 5) then ''increasing''
        else if flt (pct_change (Fin v) (Fin w)) (Fin (- 5)) then ''decreasing''
        else get_trend_direction one_pass (two_day_table v w) cost_usd_sum) \<and>
      overall_trend ''Daily Cost'' (Fin v) (Fin w) =
       (if pct_change (Fin v) (Fin w) = Fin 5 \<or> pct_change (Fin v) (Fin w) = Fin (- 5)
        then Some (PStr ''stable'')
        else if fgt (pct_change (Fin v) (Fin w)) (Fin 5) then Some (PStr ''increasing'')
        else if flt (pct_change (Fin v) (Fin w)) (Fin (- 5)) then Some (PStr ''decreasing'')
        else overall_trend ''Daily Cost'' (Fin v) (Fin w))"
    if "round64 v = Fin v \<and> round64 w = Fin w \<and> v \<noteq> 0" for v w
  proof -
    from that have r: "round64 v = Fin v" "round64 w = Fin w" "v \<noteq> 0" by simp_all
    from t [OF r] have c: "2 \<le> length (dropna (map cost_usd_sum (two_day_table v w)))"
      "first_half_mean one_pass (two_day_table v w) cost_usd_sum \<noteq> Fin 0"
      "split_halves_pct one_pass (two_day_table v w) cost_usd_sum = pct_change (Fin v) (Fin w)"
      by simp_all
    have k: "Fin v \<noteq> Fin 0" "\<not> isna (Fin v)" "\<not> isna (Fin w)" using r(3) by simp_all
    from trend_thresholds_strict [OF c(1,2) k, where label = "''Daily Cost''"]
    show ?thesis unfolding c(3) by (auto simp: fgt_def)
  qed
  have p: "pct_change (Fin 59) (Fin (4359758877396933 / 70368744177664)) = Fin f64_5_01"
    by (simp only: pct_change_up501 f64_5_01_def)
  show ?thesis
    using u [OF a1] u [OF a2] u [OF a3] u [OF a4] u [OF a5] u [OF a6]
    by (simp add: t a1 a2 a3 a4 a5 a6 pct_change_up5 p pct_change_down5 pct_change_down10
        pct_change_r1 pct_change_r2 fgt_def f64_5_01_def)
qed

end
